theory Spec2Isabelle
  imports Complex_Main "HOL-Library.Word"
begin

section \<open>Particle bookkeeping of the MPM solid driver (mpm_solid_base.cpp)\<close>

text \<open>
  The development embeds the member functions of \<open>MPMSolidBase<Scalar,Dim>\<close> as functions
  on an explicit state. The state holds the five member vectors of the class, the kernel
  pointer it reads, the free store the particle pointers point into, and the text written
  to \<open>std::cerr\<close>. Every way in which a member function can leave its normal path
  (\<open>std::exit\<close>, a failed \<open>PHYSIKA_ASSERT\<close>, an access through an invalid pointer or
  iterator) is a value of type \<open>error\<close>.
\<close>

subsection \<open>Results\<close>

datatype error =
    Exit_Failure          \<comment> \<open>\<open>std::exit(EXIT_FAILURE)\<close>\<close>
  | Assertion_Failed      \<comment> \<open>a failed \<open>PHYSIKA_ASSERT\<close>\<close>
  | Undefined_Behaviour   \<comment> \<open>access through a null or dangling pointer, double \<open>delete\<close>,
                              iterator or index past the end of a vector\<close>

definition and_then :: "error + 'a \<Rightarrow> ('a \<Rightarrow> error + 'b) \<Rightarrow> error + 'b" where
  "and_then m f = (case m of Inl e \<Rightarrow> Inl e | Inr x \<Rightarrow> f x)"

text \<open>The lines the functions write to \<open>std::cerr\<close>:
  \<^item> \<open>Warning_Index_Out_Of_Range\<close>: "Warning: MPM particle index out of range, operation ignored!"
  \<^item> \<open>Warning_Null_Particle i\<close>: "Warning: pointer to particle i is NULL, ignored!"
  \<^item> \<open>Error_Index_Out_Of_Range\<close>: "Error: MPM particle index out of range, abort program!"\<close>

datatype diagnostic =
    Warning_Index_Out_Of_Range
  | Warning_Null_Particle nat
  | Error_Index_Out_Of_Range

subsection \<open>Particles, pointers and the free store\<close>

text \<open>Modelled from the spec: the class \<open>SolidParticle<Scalar,Dim>\<close> (solid_particle.h is not
  among the sources). The spec gives a particle its physical state: position, velocity,
  mass, volume and stress. \<open>Scalar\<close> is idealised as \<open>real\<close>; the functions below only
  copy, compare and take the square root of scalars.\<close>

record solid_particle =
  position :: "real list"
  velocity :: "real list"
  mass :: real
  volume :: real
  stress :: "real list"

text \<open>Modelled from the spec: \<open>Vector<Scalar,Dim>::normSquared()\<close> (vector_2d.h and
  vector_3d.h are not among the sources), the sum of the squared components.\<close>

definition normSquared :: "real list \<Rightarrow> real" where
  "normSquared v = sum_list (map (\<lambda>x. x * x) v)"

datatype ptr = NULL | Addr nat

text \<open>The free store: the live objects with their addresses. An address that is not listed
  is not allocated.\<close>

type_synonym heap = "(nat \<times> solid_particle) list"

text \<open>The address at which \<open>new\<close> places an object: one that no live object has (the
  successor of the largest live address).\<close>

definition fresh :: "heap \<Rightarrow> nat" where
  "fresh h = Suc (fold max (map fst h) 0)"

text \<open>Reading through a pointer (\<open>p->volume()\<close>, \<open>p->velocity()\<close>).\<close>

definition deref :: "heap \<Rightarrow> ptr \<Rightarrow> error + solid_particle" where
  "deref h p =
     (case p of
        NULL \<Rightarrow> Inl Undefined_Behaviour
      | Addr a \<Rightarrow> (case map_of h a of None \<Rightarrow> Inl Undefined_Behaviour | Some v \<Rightarrow> Inr v))"

text \<open>Modelled from the spec: \<open>SolidParticle::clone()\<close>, the deep copy of a particle: a new
  object on the free store, at an address no live object has, holding the field values of
  the particle it is called on.\<close>

definition clone :: "heap \<Rightarrow> ptr \<Rightarrow> error + (ptr \<times> heap)" where
  "clone h p = and_then (deref h p) (\<lambda>v. Inr (Addr (fresh h), (fresh h, v) # h))"

text \<open>The \<open>delete\<close> expression: nothing happens on a null pointer, a live object is released,
  and releasing an address that is not live is undefined.\<close>

definition delete_ptr :: "heap \<Rightarrow> ptr \<Rightarrow> error + heap" where
  "delete_ptr h p =
     (case p of
        NULL \<Rightarrow> Inr h
      | Addr a \<Rightarrow>
          (case map_of h a of
             None \<Rightarrow> Inl Undefined_Behaviour
           | Some v \<Rightarrow> Inr (filter (\<lambda>kv. fst kv \<noteq> a) h)))"

subsection \<open>The operations of \<open>std::vector\<close> that the class uses\<close>

text \<open>\<open>v.resize(n, x)\<close>: the first \<open>n\<close> elements are kept, and only the elements added beyond
  the old size are copies of \<open>x\<close>.\<close>

definition resize :: "'a list \<Rightarrow> nat \<Rightarrow> 'a \<Rightarrow> 'a list" where
  "resize xs n x = take n xs @ replicate (n - length xs) x"

text \<open>\<open>v.erase(v.begin() + i)\<close>: the elements after position \<open>i\<close> move down by one.\<close>

definition erase :: "'a list \<Rightarrow> nat \<Rightarrow> error + 'a list" where
  "erase xs i = (if i < length xs then Inr (take i xs @ drop (Suc i) xs) else Inl Undefined_Behaviour)"

text \<open>\<open>v[i] = x\<close>.\<close>

definition assign :: "'a list \<Rightarrow> nat \<Rightarrow> 'a \<Rightarrow> error + 'a list" where
  "assign xs i x = (if i < length xs then Inr (xs[i := x]) else Inl Undefined_Behaviour)"

subsection \<open>The state of an \<open>MPMSolidBase\<close> object\<close>

text \<open>Modelled from the spec: the interpolation kernel behind \<open>m_weight_function\<close> (its class is
  not among the sources); the spec gives it one observable, an integer support radius.\<close>

datatype kernel = Kernel (supportRadius: nat)

text \<open>Modelled from the spec: \<open>MPMInternal::NodeIndexWeightGradientPair<Scalar,Dim>\<close> (declared
  in mpm_base.h, not among the sources), a tuple of node index, weight and weight gradient.
  The functions below only default-construct it.\<close>

record node_index_weight_gradient_pair =
  node_idx :: "nat list"
  weight_value :: real
  gradient_value :: "real list"

definition default_pair :: node_index_weight_gradient_pair where
  "default_pair = \<lparr>node_idx = [], weight_value = 0, gradient_value = []\<rparr>"

record mpm_solid_base =
  heap :: heap
  cerr :: "diagnostic list"
  m_weight_function :: "kernel option"
  m_particles :: "ptr list"
  m_is_bc_particle :: "8 word list"
  m_particle_initial_volume :: "real list"
  m_particle_grid_weight_and_gradient :: "node_index_weight_gradient_pair list list"
  m_particle_grid_pair_num :: "nat list"

text \<open>The fields \<open>m_x\<close> are the members \<open>x_\<close> of the class (of \<open>MPMBase\<close> for the kernel
  and the two cache vectors); \<open>heap\<close> and \<open>cerr\<close> are the free store and the standard error
  stream of the process.\<close>

text \<open>A newly constructed object: all vectors empty, no output yet.\<close>

definition new_base :: "heap \<Rightarrow> kernel option \<Rightarrow> mpm_solid_base" where
  "new_base h k =
     \<lparr>heap = h, cerr = [], m_weight_function = k, m_particles = [], m_is_bc_particle = [],
      m_particle_initial_volume = [], m_particle_grid_weight_and_gradient = [],
      m_particle_grid_pair_num = []\<rparr>"

subsection \<open>Cache sizing\<close>

text \<open>\<open>unsigned int max_num = 1; for(i < Dim) max_num *= supportRadius()*2+1;\<close> with the
  wrap-around of \<open>unsigned int\<close> written out.\<close>

primrec max_num_loop :: "nat \<Rightarrow> nat \<Rightarrow> nat \<Rightarrow> nat" where
  "max_num_loop 0 r m = m"
| "max_num_loop (Suc n) r m = max_num_loop n r ((m * (r * 2 + 1)) mod 4294967296)"

definition max_num :: "nat \<Rightarrow> nat \<Rightarrow> nat" where
  "max_num Dim r = max_num_loop Dim r 1"

definition allocateSpaceForWeightAndGradient :: "nat \<Rightarrow> mpm_solid_base \<Rightarrow> error + mpm_solid_base" where
  "allocateSpaceForWeightAndGradient Dim s =
     (case m_weight_function s of
        None \<Rightarrow> Inl Assertion_Failed
      | Some k \<Rightarrow>
          (let max_num_weight_and_gradient_vec = replicate (max_num Dim (supportRadius k)) default_pair
           in Inr (s\<lparr>m_particle_grid_weight_and_gradient :=
                        resize (m_particle_grid_weight_and_gradient s) (length (m_particles s))
                          max_num_weight_and_gradient_vec,
                     m_particle_grid_pair_num :=
                        resize (m_particle_grid_pair_num s) (length (m_particles s)) 0\<rparr>)))"

definition appendSpaceForWeightAndGradient :: "nat \<Rightarrow> mpm_solid_base \<Rightarrow> error + mpm_solid_base" where
  "appendSpaceForWeightAndGradient Dim s =
     (case m_weight_function s of
        None \<Rightarrow> Inl Undefined_Behaviour
      | Some k \<Rightarrow>
          (let max_num_weight_and_gradient_vec = replicate (max_num Dim (supportRadius k)) default_pair
           in Inr (s\<lparr>m_particle_grid_weight_and_gradient :=
                        m_particle_grid_weight_and_gradient s @ [max_num_weight_and_gradient_vec],
                     m_particle_grid_pair_num := m_particle_grid_pair_num s @ [0]\<rparr>)))"

subsection \<open>Member functions\<close>

text \<open>\<open>particleNum\<close> returns \<open>particles_.size()\<close> as \<open>unsigned int\<close>, and the indices are
  \<open>unsigned int\<close>; the conversion is the identity for the sizes considered here (below
  \<open>2 ^ 32\<close> particles), and counts and indices are natural numbers.\<close>

definition particleNum :: "mpm_solid_base \<Rightarrow> nat" where
  "particleNum s = length (m_particles s)"

text \<open>\<open>addParticle(const SolidParticle &particle)\<close>: the reference is the address of the
  caller's object.\<close>

definition addParticle :: "nat \<Rightarrow> mpm_solid_base \<Rightarrow> nat \<Rightarrow> error + mpm_solid_base" where
  "addParticle Dim s particle =
     and_then (clone (heap s) (Addr particle)) (\<lambda>(new_particle, h).
     and_then (deref h new_particle) (\<lambda>v.
       appendSpaceForWeightAndGradient Dim
         (s\<lparr>heap := h,
            m_particles := m_particles s @ [new_particle],
            m_is_bc_particle := m_is_bc_particle s @ [0],
            m_particle_initial_volume := m_particle_initial_volume s @ [volume v]\<rparr>)))"

definition removeParticle :: "mpm_solid_base \<Rightarrow> nat \<Rightarrow> error + mpm_solid_base" where
  "removeParticle s particle_idx =
     (if particle_idx \<ge> length (m_particles s)
      then Inr (s\<lparr>cerr := cerr s @ [Warning_Index_Out_Of_Range]\<rparr>)
      else
        and_then (delete_ptr (heap s) (m_particles s ! particle_idx)) (\<lambda>h.
        and_then (erase (m_particles s) particle_idx) (\<lambda>ps.
        and_then (erase (m_particle_initial_volume s) particle_idx) (\<lambda>vs.
        and_then (erase (m_is_bc_particle s) particle_idx) (\<lambda>bs.
        and_then (erase (m_particle_grid_weight_and_gradient s) particle_idx) (\<lambda>ws.
        and_then (erase (m_particle_grid_pair_num s) particle_idx) (\<lambda>ns.
          Inr (s\<lparr>heap := h, m_particles := ps, m_particle_initial_volume := vs,
                 m_is_bc_particle := bs, m_particle_grid_weight_and_gradient := ws,
                 m_particle_grid_pair_num := ns\<rparr>))))))))"

text \<open>The loop \<open>for(i < particles_.size()) if(particles_[i]) delete particles_[i];\<close> of
  \<open>setParticles\<close> and of the destructor.\<close>

fun release :: "heap \<Rightarrow> ptr list \<Rightarrow> error + heap" where
  "release h [] = Inr h"
| "release h (p # ps) =
     (if p \<noteq> NULL then and_then (delete_ptr h p) (\<lambda>h'. release h' ps) else release h ps)"

definition destructor :: "mpm_solid_base \<Rightarrow> error + heap" where
  "destructor s = release (heap s) (m_particles s)"

text \<open>The loop \<open>for(i < particles.size())\<close> of \<open>setParticles\<close>, from index \<open>i\<close> on.\<close>

fun add_new_particle_data :: "nat \<Rightarrow> ptr list \<Rightarrow> mpm_solid_base \<Rightarrow> error + mpm_solid_base" where
  "add_new_particle_data i [] s = Inr s"
| "add_new_particle_data i (p # particles) s =
     (if p = NULL
      then add_new_particle_data (Suc i) particles (s\<lparr>cerr := cerr s @ [Warning_Null_Particle i]\<rparr>)
      else
        and_then (clone (heap s) p) (\<lambda>(c, h).
        and_then (assign (m_particles s) i c) (\<lambda>ps.
        and_then (assign (m_is_bc_particle s) i 0) (\<lambda>bs.
        and_then (deref h c) (\<lambda>v.
        and_then (assign (m_particle_initial_volume s) i (volume v)) (\<lambda>vs.
          add_new_particle_data (Suc i) particles
            (s\<lparr>heap := h, m_particles := ps, m_is_bc_particle := bs,
               m_particle_initial_volume := vs\<rparr>)))))))"

definition setParticles :: "nat \<Rightarrow> mpm_solid_base \<Rightarrow> ptr list \<Rightarrow> error + mpm_solid_base" where
  "setParticles Dim s particles =
     and_then (release (heap s) (m_particles s)) (\<lambda>h.
     and_then (allocateSpaceForWeightAndGradient Dim
                 (s\<lparr>heap := h,
                    m_particles := resize (m_particles s) (length particles) NULL,
                    m_is_bc_particle := resize (m_is_bc_particle s) (length particles) 0,
                    m_particle_initial_volume :=
                      resize (m_particle_initial_volume s) (length particles) 0\<rparr>))
       (add_new_particle_data 0 particles))"

text \<open>The two forms of \<open>particle(particle_idx)\<close>, which end in
  \<open>return *particles_[particle_idx]\<close>. The indirection is defined only on a pointer to a live
  object, and the reference returned is then the address of that object. The first component
  of the result is what \<open>std::cerr\<close> holds afterwards.\<close>

definition particle_const :: "mpm_solid_base \<Rightarrow> nat \<Rightarrow> diagnostic list \<times> (error + ptr)" where
  "particle_const s particle_idx =
     (if particle_idx \<ge> length (m_particles s)
      then (cerr s @ [Error_Index_Out_Of_Range], Inl Exit_Failure)
      else (cerr s, and_then (deref (heap s) (m_particles s ! particle_idx))
                      (\<lambda>v. Inr (m_particles s ! particle_idx))))"

definition particle :: "mpm_solid_base \<Rightarrow> nat \<Rightarrow> diagnostic list \<times> (error + ptr)" where
  "particle s particle_idx =
     (if particle_idx \<ge> length (m_particles s)
      then (cerr s @ [Error_Index_Out_Of_Range], Inl Exit_Failure)
      else (cerr s, and_then (deref (heap s) (m_particles s ! particle_idx))
                      (\<lambda>v. Inr (m_particles s ! particle_idx))))"

definition allParticles :: "mpm_solid_base \<Rightarrow> ptr list" where
  "allParticles s = m_particles s"

definition addBCParticle :: "mpm_solid_base \<Rightarrow> nat \<Rightarrow> error + mpm_solid_base" where
  "addBCParticle s particle_idx =
     (if particle_idx \<ge> length (m_particles s)
      then Inr (s\<lparr>cerr := cerr s @ [Warning_Index_Out_Of_Range]\<rparr>)
      else and_then (assign (m_is_bc_particle s) particle_idx 1)
             (\<lambda>bs. Inr (s\<lparr>m_is_bc_particle := bs\<rparr>)))"

fun addBCParticles :: "mpm_solid_base \<Rightarrow> nat list \<Rightarrow> error + mpm_solid_base" where
  "addBCParticles s [] = Inr s"
| "addBCParticles s (i # particle_idx) =
     and_then (addBCParticle s i) (\<lambda>s'. addBCParticles s' particle_idx)"

text \<open>The loop of \<open>maxParticleVelocityNorm\<close>; \<open>min_vel\<close> starts at
  \<open>std::numeric_limits<Scalar>::max()\<close>, which the function takes as \<open>scalar_max\<close>.\<close>

fun min_vel_loop :: "heap \<Rightarrow> ptr list \<Rightarrow> real \<Rightarrow> error + real" where
  "min_vel_loop h [] min_vel = Inr min_vel"
| "min_vel_loop h (p # ps) min_vel =
     and_then (deref h p) (\<lambda>v.
       (let norm_sqr = normSquared (velocity v)
        in min_vel_loop h ps (if norm_sqr < min_vel then norm_sqr else min_vel)))"

definition maxParticleVelocityNorm :: "real \<Rightarrow> mpm_solid_base \<Rightarrow> error + real" where
  "maxParticleVelocityNorm scalar_max s =
     (if m_particles s = [] then Inr 0
      else and_then (min_vel_loop (heap s) (m_particles s) scalar_max) (\<lambda>min_vel. Inr (sqrt min_vel)))"

subsection \<open>Vocabulary of the statements\<close>

text \<open>A caller assigning to its own particle (\<open>*a = v\<close>): the object at address \<open>a\<close> gets
  the value \<open>v\<close>; nothing else in the free store changes.\<close>

definition store :: "heap \<Rightarrow> nat \<Rightarrow> solid_particle \<Rightarrow> heap" where
  "store h a v = map (\<lambda>kv. if fst kv = a then (a, v) else kv) h"

text \<open>The four parallel sequences (the cache is two vectors, the slots and their counters of
  valid entries) are as long as the particle sequence.\<close>

definition parallel :: "mpm_solid_base \<Rightarrow> bool" where
  "parallel s \<longleftrightarrow>
     length (m_is_bc_particle s) = length (m_particles s) \<and>
     length (m_particle_initial_volume s) = length (m_particles s) \<and>
     length (m_particle_grid_weight_and_gradient s) = length (m_particles s) \<and>
     length (m_particle_grid_pair_num s) = length (m_particles s)"

text \<open>A pointer that \<open>delete\<close> accepts: null, or the address of a live object.\<close>

definition releasable :: "heap \<Rightarrow> ptr \<Rightarrow> bool" where
  "releasable h p = (case p of NULL \<Rightarrow> True | Addr a \<Rightarrow> map_of h a \<noteq> None)"

text \<open>Sequences of \<open>addParticle\<close> and \<open>removeParticle\<close> calls.\<close>

datatype operation = Add nat | RemoveAt nat

fun apply_operation :: "nat \<Rightarrow> mpm_solid_base \<Rightarrow> operation \<Rightarrow> error + mpm_solid_base" where
  "apply_operation Dim s (Add a) = addParticle Dim s a"
| "apply_operation Dim s (RemoveAt i) = removeParticle s i"

fun run :: "nat \<Rightarrow> mpm_solid_base \<Rightarrow> operation list \<Rightarrow> error + mpm_solid_base" where
  "run Dim s [] = Inr s"
| "run Dim s (op # ops) = and_then (apply_operation Dim s op) (\<lambda>s'. run Dim s' ops)"

text \<open>The addresses of the particles that a sequence of calls passes to \<open>addParticle\<close>.\<close>

fun added :: "operation list \<Rightarrow> nat list" where
  "added [] = []"
| "added (Add a # ops) = a # added ops"
| "added (RemoveAt i # ops) = added ops"

text \<open>Index correspondence at index \<open>i\<close>: the pointer at \<open>i\<close> points to a live particle, the
  initial volume at \<open>i\<close> is the volume of that particle, its boundary flag is the default,
  its cache slot has the size the kernel asks for and its counter of valid entries is 0.\<close>

definition entry_consistent :: "nat \<Rightarrow> mpm_solid_base \<Rightarrow> nat \<Rightarrow> bool" where
  "entry_consistent Dim s i \<longleftrightarrow>
     (case m_particles s ! i of
        NULL \<Rightarrow> False
      | Addr a \<Rightarrow>
          (case map_of (heap s) a of
             None \<Rightarrow> False
           | Some v \<Rightarrow> m_particle_initial_volume s ! i = volume v)) \<and>
     m_is_bc_particle s ! i = 0 \<and>
     (case m_weight_function s of
        None \<Rightarrow> False
      | Some k \<Rightarrow> length (m_particle_grid_weight_and_gradient s ! i) = max_num Dim (supportRadius k)) \<and>
     m_particle_grid_pair_num s ! i = 0"

definition consistent :: "nat \<Rightarrow> mpm_solid_base \<Rightarrow> bool" where
  "consistent Dim s \<longleftrightarrow>
     parallel s \<and> distinct (m_particles s) \<and> (\<forall>i < particleNum s. entry_consistent Dim s i)"

text \<open>Separate calls of \<open>addBCParticle\<close>, one for each index of a list in turn.\<close>

fun addBCParticle_calls :: "mpm_solid_base \<Rightarrow> nat list \<Rightarrow> error + mpm_solid_base" where
  "addBCParticle_calls s [] = Inr s"
| "addBCParticle_calls s (i # is) = and_then (addBCParticle s i) (\<lambda>s'. addBCParticle_calls s' is)"

text \<open>The indices \<open>is\<close> marked by calls of \<open>addBCParticle\<close>, then the indices \<open>js\<close> marked by one
  call of \<open>addBCParticles\<close>.\<close>

definition mark_then_marks :: "mpm_solid_base \<Rightarrow> nat list \<Rightarrow> nat list \<Rightarrow> error + mpm_solid_base" where
  "mark_then_marks s is js = and_then (addBCParticle_calls s is) (\<lambda>s'. addBCParticles s' js)"

text \<open>The state in which the loop of \<open>setParticles\<close> starts: the free store \<open>h\<close> left by the
  release loop, and the five vectors after \<open>resize\<close> to \<open>n\<close> entries under the kernel \<open>k\<close>.\<close>

definition resized :: "nat \<Rightarrow> kernel \<Rightarrow> heap \<Rightarrow> nat \<Rightarrow> mpm_solid_base \<Rightarrow> mpm_solid_base" where
  "resized Dim k h n s =
     s\<lparr>heap := h,
       m_particles := resize (m_particles s) n NULL,
       m_is_bc_particle := resize (m_is_bc_particle s) n 0,
       m_particle_initial_volume := resize (m_particle_initial_volume s) n 0,
       m_particle_grid_weight_and_gradient :=
         resize (m_particle_grid_weight_and_gradient s) n (replicate (max_num Dim (supportRadius k)) default_pair),
       m_particle_grid_pair_num := resize (m_particle_grid_pair_num s) n 0\<rparr>"

subsection \<open>Concrete inputs\<close>

definition p0 :: solid_particle where
  "p0 = \<lparr>position = [0, 0], velocity = [3, 4], mass = 1, volume = 2, stress = []\<rparr>"

text \<open>The container after \<open>addParticle\<close> of the particle at address 1 in two dimensions,
  under a kernel of support radius 1.\<close>

definition one_particle :: mpm_solid_base where
  "one_particle =
     \<lparr>heap = [(2, p0), (1, p0)], cerr = [], m_weight_function = Some (Kernel 1),
      m_particles = [Addr 2], m_is_bc_particle = [0], m_particle_initial_volume = [2],
      m_particle_grid_weight_and_gradient = [replicate 9 default_pair],
      m_particle_grid_pair_num = [0]\<rparr>"

definition p1 :: solid_particle where
  "p1 = \<lparr>position = [1, 1], velocity = [0, 1], mass = 1, volume = 5, stress = []\<rparr>"

text \<open>\<open>one_particle\<close> after a second \<open>addParticle\<close> of the particle at address 1 and
  \<open>addBCParticle(1)\<close>.\<close>

definition flagged_container :: mpm_solid_base where
  "flagged_container =
     \<lparr>heap = [(3, p0), (2, p0), (1, p0)], cerr = [], m_weight_function = Some (Kernel 1),
      m_particles = [Addr 2, Addr 3], m_is_bc_particle = [0, 1], m_particle_initial_volume = [2, 2],
      m_particle_grid_weight_and_gradient = [replicate 9 default_pair, replicate 9 default_pair],
      m_particle_grid_pair_num = [0, 0]\<rparr>"

text \<open>\<open>one_particle\<close> after the caller has created a second particle, at address 3.\<close>

definition occupied :: mpm_solid_base where
  "occupied = one_particle\<lparr>heap := (3, p1) # heap one_particle\<rparr>"

text \<open>\<open>one_particle\<close> after a time step has recorded 4 valid cache entries for its particle
  and the kernel has been replaced by one of support radius 2.\<close>

definition rekernelled :: mpm_solid_base where
  "rekernelled = one_particle\<lparr>m_weight_function := Some (Kernel 2), m_particle_grid_pair_num := [4]\<rparr>"

text \<open>A container of four particles: \<open>one_particle\<close> after two more \<open>addParticle\<close> of the
  particle at address 1, \<open>addParticle\<close> of a particle that the caller has created at address 5,
  and \<open>addBCParticle(2)\<close>; a time step has since recorded 1, 2, 3 and 4 valid cache entries.\<close>

definition four_particles :: mpm_solid_base where
  "four_particles =
     \<lparr>heap = [(6, p1), (5, p1), (4, p0), (3, p0), (2, p0), (1, p0)], cerr = [],
      m_weight_function = Some (Kernel 1),
      m_particles = [Addr 2, Addr 3, Addr 4, Addr 6], m_is_bc_particle = [0, 0, 1, 0],
      m_particle_initial_volume = [2, 2, 2, 5],
      m_particle_grid_weight_and_gradient =
        [replicate 9 default_pair, replicate 9 default_pair, replicate 9 default_pair,
         replicate 9 default_pair],
      m_particle_grid_pair_num = [1, 2, 3, 4]\<rparr>"

section \<open>Basic facts\<close>

lemma and_then_Inr [simp]: "and_then (Inr x) f = f x"
  by (simp add: and_then_def)

lemma and_then_Inl [simp]: "and_then (Inl e) f = Inl e"
  by (simp add: and_then_def)

lemma and_then_eq_Inr: "and_then m f = Inr y \<longleftrightarrow> (\<exists>x. m = Inr x \<and> f x = Inr y)"
  by (cases m) simp_all

subsection \<open>The free store\<close>

lemma fold_max_ge: "m \<le> fold max xs (m::nat)"
proof (induction xs arbitrary: m)
  case Nil
  show ?case by simp
next
  case (Cons x xs)
  have "m \<le> max x m" by simp
  also have "\<dots> \<le> fold max xs (max x m)" by (rule Cons.IH)
  finally show ?case by simp
qed

lemma fold_max_mem: "a \<in> set xs \<Longrightarrow> a \<le> fold max xs (m::nat)"
proof (induction xs arbitrary: m)
  case Nil
  then show ?case by simp
next
  case (Cons x xs)
  show ?case
  proof (cases "a = x")
    case True
    have "a \<le> max x m" using True by simp
    also have "\<dots> \<le> fold max xs (max x m)" by (rule fold_max_ge)
    finally show ?thesis by simp
  next
    case False
    with Cons.prems have "a \<in> set xs" by simp
    then show ?thesis using Cons.IH by simp
  qed
qed

lemma fresh_not_live: "map_of h (fresh h) = None"
proof -
  have "fresh h \<notin> fst ` set h"
  proof
    assume "fresh h \<in> fst ` set h"
    then have "fresh h \<in> set (map fst h)" by simp
    then have "fresh h \<le> fold max (map fst h) 0" by (rule fold_max_mem)
    then show False by (simp add: fresh_def)
  qed
  then show ?thesis by (simp add: map_of_eq_None_iff)
qed

lemma map_of_released: "map_of (filter (\<lambda>kv. fst kv \<noteq> a) h) b = (if b = a then None else map_of h b)"
  by (induction h) auto

lemma map_of_store: "map_of (store h a v) b = (if b = a then map_option (\<lambda>_. v) (map_of h a) else map_of h b)"
  by (induction h) (auto simp: store_def)

lemma deref_Addr: "deref h (Addr a) = (case map_of h a of None \<Rightarrow> Inl Undefined_Behaviour | Some v \<Rightarrow> Inr v)"
  by (simp add: deref_def)

lemma clone_live:
  "map_of h a = Some v \<Longrightarrow> clone h (Addr a) = Inr (Addr (fresh h), (fresh h, v) # h)"
  by (simp add: clone_def deref_def)

lemma delete_ptr_releasable:
  "releasable h p \<Longrightarrow> delete_ptr h p = Inr (case p of NULL \<Rightarrow> h | Addr a \<Rightarrow> filter (\<lambda>kv. fst kv \<noteq> a) h)"
  by (auto simp: releasable_def delete_ptr_def split: ptr.splits)

lemma releasable_alloc: "releasable h p \<Longrightarrow> releasable ((c, v) # h) p"
  by (cases p) (simp_all add: releasable_def)

lemma clone_releasable:
  assumes "releasable h p" and "p \<noteq> NULL"
  shows "\<exists>v. clone h p = Inr (Addr (fresh h), (fresh h, v) # h)"
proof (cases p)
  case NULL
  with assms show ?thesis by simp
next
  case (Addr a)
  with assms obtain v where "map_of h a = Some v" by (auto simp: releasable_def)
  with Addr show ?thesis by (simp add: clone_live)
qed

subsection \<open>Vectors\<close>

lemma erase_in_range: "i < length xs \<Longrightarrow> erase xs i = Inr (take i xs @ drop (Suc i) xs)"
  by (simp add: erase_def)

lemma nth_erased:
  "i < length xs \<Longrightarrow> j < length xs - 1 \<Longrightarrow>
     (take i xs @ drop (Suc i) xs) ! j = (if j < i then xs ! j else xs ! Suc j)"
  by (simp add: nth_append min_def)

lemma distinct_erased:
  assumes "distinct xs"
  shows "distinct (take i xs @ drop (Suc i) xs)"
proof -
  from assms have "distinct (take i xs @ drop i xs)" by simp
  then have "set (take i xs) \<inter> set (drop i xs) = {}"
    by (simp only: distinct_append)
  moreover have "set (drop (Suc i) xs) \<subseteq> set (drop i xs)"
    by (rule set_drop_subset_set_drop) simp
  ultimately have "set (take i xs) \<inter> set (drop (Suc i) xs) = {}" by blast
  with assms show ?thesis by simp
qed

lemma nth_resize: "i < n \<Longrightarrow> i < length xs \<Longrightarrow> resize xs n x ! i = xs ! i"
  by (simp add: resize_def nth_append)

lemma nth_resize_new: "length xs \<le> i \<Longrightarrow> i < n \<Longrightarrow> resize xs n x ! i = x"
  by (simp add: resize_def nth_append)

lemma length_resize: "length (resize xs n x) = n"
  by (simp add: resize_def)

lemma length_marked: "length (fold (\<lambda>i bs. bs[i := x]) js bs) = length bs"
  by (induction js arbitrary: bs) simp_all

lemma nth_marked:
  "j < length bs \<Longrightarrow> fold (\<lambda>i bs. bs[i := x]) js bs ! j = (if j \<in> set js then x else bs ! j)"
proof (induction js arbitrary: bs)
  case Nil
  show ?case by simp
next
  case (Cons i js)
  from Cons.prems have "j < length (bs[i := x])" by simp
  from Cons.IH [OF this] Cons.prems show ?case
    by (auto simp: nth_list_update)
qed

subsection \<open>The size of a cache slot\<close>

lemma max_num_loop_eq: "m < 4294967296 \<Longrightarrow> max_num_loop n r m = (m * (2 * r + 1) ^ n) mod 4294967296"
proof (induction n arbitrary: m)
  case 0
  then show ?case by simp
next
  case (Suc n)
  have "max_num_loop (Suc n) r m = max_num_loop n r ((m * (r * 2 + 1)) mod 4294967296)" by simp
  also have "\<dots> = (((m * (r * 2 + 1)) mod 4294967296) * (2 * r + 1) ^ n) mod 4294967296"
    by (rule Suc.IH) simp
  also have "\<dots> = ((m * (r * 2 + 1)) * (2 * r + 1) ^ n) mod 4294967296"
    by (simp add: mod_mult_left_eq)
  also have "\<dots> = (m * (2 * r + 1) ^ Suc n) mod 4294967296"
    by (simp add: algebra_simps)
  finally show ?case .
qed

lemma max_num_eq: "max_num Dim r = (2 * r + 1) ^ Dim mod 4294967296"
  by (simp add: max_num_def max_num_loop_eq)

lemma max_num_exact: "(2 * r + 1) ^ Dim < 4294967296 \<Longrightarrow> max_num Dim r = (2 * r + 1) ^ Dim"
  by (simp add: max_num_eq)

section \<open>Appending a particle\<close>

text \<open>
  Claim C4. For every particle \<open>p\<close> (a live object at address \<open>a\<close>) and every state of the
  container whose kernel is set and whose slot size \<open>(2 * supportRadius + 1) ^ Dim\<close> fits
  \<open>unsigned int\<close>, \<open>addParticle\<close> returns normally and appends exactly one entry to each
  sequence. The new last particle, which \<open>particle(particleNum() - 1)\<close> returns, is an object
  at an address \<open>c\<close> that was not live before, so it is not \<open>p\<close> itself nor any other
  object; it holds the field values of \<open>p\<close>, and still holds them after the caller assigns any
  value \<open>q\<close> to \<open>p\<close>. The new boundary flag is 0, the new initial volume is the volume of \<open>p\<close>
  at the call, the new cache slot has \<open>(2 * supportRadius + 1) ^ Dim\<close> entries and its counter
  of valid entries is 0. No other object of the free store changes and nothing is written to
  \<open>std::cerr\<close>.
\<close>

theorem addParticle_appends:
  assumes live: "map_of (heap s) a = Some p"
      and kernel: "m_weight_function s = Some k"
      and fits: "(2 * supportRadius k + 1) ^ Dim < 4294967296"
  shows "\<exists>s' c slot.
           addParticle Dim s a = Inr s'
         \<and> particleNum s' = particleNum s + 1
         \<and> m_particles s' = m_particles s @ [Addr c]
         \<and> particle s' (particleNum s' - 1) = (cerr s, Inr (Addr c))
         \<and> map_of (heap s) c = None \<and> c \<noteq> a
         \<and> deref (heap s') (Addr c) = Inr p
         \<and> (\<forall>q. deref (store (heap s') a q) (Addr c) = Inr p)
         \<and> (\<forall>b. b \<noteq> c \<longrightarrow> map_of (heap s') b = map_of (heap s) b)
         \<and> m_is_bc_particle s' = m_is_bc_particle s @ [0]
         \<and> m_particle_initial_volume s' = m_particle_initial_volume s @ [volume p]
         \<and> m_particle_grid_weight_and_gradient s' = m_particle_grid_weight_and_gradient s @ [slot]
         \<and> length slot = (2 * supportRadius k + 1) ^ Dim
         \<and> m_particle_grid_pair_num s' = m_particle_grid_pair_num s @ [0]
         \<and> cerr s' = cerr s \<and> m_weight_function s' = m_weight_function s"
proof -
  define c where "c = fresh (heap s)"
  define slot where "slot = replicate (max_num Dim (supportRadius k)) default_pair"
  define s' where "s' = s\<lparr>heap := (c, p) # heap s,
      m_particles := m_particles s @ [Addr c],
      m_is_bc_particle := m_is_bc_particle s @ [0],
      m_particle_initial_volume := m_particle_initial_volume s @ [volume p],
      m_particle_grid_weight_and_gradient := m_particle_grid_weight_and_gradient s @ [slot],
      m_particle_grid_pair_num := m_particle_grid_pair_num s @ [0]\<rparr>"
  have fresh: "map_of (heap s) c = None"
    unfolding c_def by (rule fresh_not_live)
  have ne: "c \<noteq> a"
    using fresh live by auto
  have run: "addParticle Dim s a = Inr s'"
    using live kernel
    by (simp add: addParticle_def clone_live deref_Addr appendSpaceForWeightAndGradient_def
        s'_def c_def slot_def)
  have len: "length slot = (2 * supportRadius k + 1) ^ Dim"
    using fits by (simp add: slot_def max_num_exact)
  have stored: "deref (heap s') (Addr c) = Inr p"
    by (simp add: s'_def deref_Addr)
  have after: "deref (store (heap s') a q) (Addr c) = Inr p" for q
    using ne by (simp add: deref_Addr map_of_store s'_def)
  have others: "b \<noteq> c \<longrightarrow> map_of (heap s') b = map_of (heap s) b" for b
    by (simp add: s'_def)
  have "particle s' (particleNum s' - 1) = (cerr s, Inr (Addr c))"
    by (simp add: particle_def particleNum_def s'_def deref_Addr)
  with run len stored after others fresh ne show ?thesis
    by (intro exI [of _ s'] exI [of _ c] exI [of _ slot]) (simp add: s'_def particleNum_def)
qed

theorem addParticle_appends_witness:
  "map_of (heap (new_base [(1, p0)] (Some (Kernel 1)))) 1 = Some p0 \<and>
   m_weight_function (new_base [(1, p0)] (Some (Kernel 1))) = Some (Kernel 1) \<and>
   (2 * supportRadius (Kernel 1) + 1) ^ 2 < (4294967296 :: nat) \<and>
   (\<exists>s' c slot.
      addParticle 2 (new_base [(1, p0)] (Some (Kernel 1))) 1 = Inr s'
      \<and> particleNum s' = 1
      \<and> c \<noteq> 1
      \<and> deref (heap s') (Addr c) = Inr p0
      \<and> length (slot :: node_index_weight_gradient_pair list) = 9)"
proof -
  have 1: "map_of (heap (new_base [(1, p0)] (Some (Kernel 1)))) 1 = Some p0"
    by (simp add: new_base_def)
  have 2: "m_weight_function (new_base [(1, p0)] (Some (Kernel 1))) = Some (Kernel 1)"
    by (simp add: new_base_def)
  have 3: "(2 * supportRadius (Kernel 1) + 1) ^ 2 < (4294967296 :: nat)"
    by simp
  note r = addParticle_appends [OF 1 2 3]
  from r obtain s' c slot where
    "addParticle 2 (new_base [(1, p0)] (Some (Kernel 1))) 1 = Inr s'
      \<and> particleNum s' = particleNum (new_base [(1, p0)] (Some (Kernel 1))) + 1
      \<and> c \<noteq> 1
      \<and> deref (heap s') (Addr c) = Inr p0
      \<and> length (slot :: node_index_weight_gradient_pair list) = (2 * supportRadius (Kernel 1) + 1) ^ 2"
    by (elim exE conjE) (rule that, intro conjI)
  then have "addParticle 2 (new_base [(1, p0)] (Some (Kernel 1))) 1 = Inr s'
      \<and> particleNum s' = 1 \<and> c \<noteq> 1 \<and> deref (heap s') (Addr c) = Inr p0 \<and> length (slot :: node_index_weight_gradient_pair list) = 9"
    by (simp add: particleNum_def new_base_def)
  then have "\<exists>s' c slot. addParticle 2 (new_base [(1, p0)] (Some (Kernel 1))) 1 = Inr s'
      \<and> particleNum s' = 1 \<and> c \<noteq> 1 \<and> deref (heap s') (Addr c) = Inr p0 \<and> length (slot :: node_index_weight_gradient_pair list) = 9"
    by (intro exI)
  with 1 2 3 show ?thesis by (intro conjI)
qed

lemma one_particle_reached:
  "addParticle 2 (new_base [(1, p0)] (Some (Kernel 1))) 1 = Inr one_particle"
  by (simp add: addParticle_def clone_live deref_Addr appendSpaceForWeightAndGradient_def
      new_base_def one_particle_def fresh_def max_num_eq p0_def)

lemma four_particles_reached:
  "and_then (addParticle 2 one_particle 1) (\<lambda>s.
   and_then (addParticle 2 s 1) (\<lambda>s.
   and_then (addParticle 2 (s\<lparr>heap := (5, p1) # heap s\<rparr>) 5) (\<lambda>s. addBCParticle s 2)))
     = Inr (four_particles\<lparr>m_particle_grid_pair_num := [0, 0, 0, 0]\<rparr>)"
  by (simp add: addParticle_def clone_live deref_Addr appendSpaceForWeightAndGradient_def
      one_particle_def four_particles_def fresh_def max_num_eq p0_def p1_def addBCParticle_def
      assign_def)

section \<open>Removing a particle\<close>

lemma removeParticle_in_range:
  assumes "i < length (m_particles s)" and "parallel s" and "releasable (heap s) (m_particles s ! i)"
  shows "removeParticle s i =
     Inr (s\<lparr>heap := (case m_particles s ! i of NULL \<Rightarrow> heap s | Addr a \<Rightarrow> filter (\<lambda>kv. fst kv \<noteq> a) (heap s)),
            m_particles := take i (m_particles s) @ drop (Suc i) (m_particles s),
            m_particle_initial_volume := take i (m_particle_initial_volume s) @ drop (Suc i) (m_particle_initial_volume s),
            m_is_bc_particle := take i (m_is_bc_particle s) @ drop (Suc i) (m_is_bc_particle s),
            m_particle_grid_weight_and_gradient :=
              take i (m_particle_grid_weight_and_gradient s) @ drop (Suc i) (m_particle_grid_weight_and_gradient s),
            m_particle_grid_pair_num := take i (m_particle_grid_pair_num s) @ drop (Suc i) (m_particle_grid_pair_num s)\<rparr>)"
  using assms by (simp add: removeParticle_def parallel_def erase_in_range delete_ptr_releasable)

lemma removeParticle_shift:
  assumes inb: "i < particleNum s"
      and par: "parallel s"
      and rel: "releasable (heap s) (m_particles s ! i)"
  shows "\<exists>s'. removeParticle s i = Inr s'
           \<and> particleNum s' = particleNum s - 1
           \<and> parallel s'
           \<and> (\<forall>j. i \<le> j \<and> j < particleNum s' \<longrightarrow>
                  ((m_particles s ! Suc j = m_particles s ! i \<longrightarrow> m_particles s ! i = NULL) \<longrightarrow>
                     particle s' j = particle s (Suc j))
                \<and> m_particles s' ! j = m_particles s ! Suc j
                \<and> m_is_bc_particle s' ! j = m_is_bc_particle s ! Suc j
                \<and> m_particle_initial_volume s' ! j = m_particle_initial_volume s ! Suc j
                \<and> m_particle_grid_weight_and_gradient s' ! j = m_particle_grid_weight_and_gradient s ! Suc j
                \<and> m_particle_grid_pair_num s' ! j = m_particle_grid_pair_num s ! Suc j)
           \<and> (\<forall>j. j < i \<longrightarrow>
                  ((m_particles s ! j = m_particles s ! i \<longrightarrow> m_particles s ! i = NULL) \<longrightarrow>
                     particle s' j = particle s j)
                \<and> m_particles s' ! j = m_particles s ! j
                \<and> m_is_bc_particle s' ! j = m_is_bc_particle s ! j
                \<and> m_particle_initial_volume s' ! j = m_particle_initial_volume s ! j
                \<and> m_particle_grid_weight_and_gradient s' ! j = m_particle_grid_weight_and_gradient s ! j
                \<and> m_particle_grid_pair_num s' ! j = m_particle_grid_pair_num s ! j)
           \<and> (\<forall>b. Addr b \<noteq> m_particles s ! i \<longrightarrow> map_of (heap s') b = map_of (heap s) b)
           \<and> cerr s' = cerr s"
proof -
  let ?n = "length (m_particles s)"
  from inb have i: "i < ?n" by (simp add: particleNum_def)
  from removeParticle_in_range [OF i par rel] obtain s' where
    run: "removeParticle s i = Inr s'" and
    hp: "heap s' = (case m_particles s ! i of NULL \<Rightarrow> heap s | Addr a \<Rightarrow> filter (\<lambda>kv. fst kv \<noteq> a) (heap s))" and
    ps: "m_particles s' = take i (m_particles s) @ drop (Suc i) (m_particles s)" and
    vs: "m_particle_initial_volume s' = take i (m_particle_initial_volume s) @ drop (Suc i) (m_particle_initial_volume s)" and
    bs: "m_is_bc_particle s' = take i (m_is_bc_particle s) @ drop (Suc i) (m_is_bc_particle s)" and
    ws: "m_particle_grid_weight_and_gradient s' =
           take i (m_particle_grid_weight_and_gradient s) @ drop (Suc i) (m_particle_grid_weight_and_gradient s)" and
    ns: "m_particle_grid_pair_num s' = take i (m_particle_grid_pair_num s) @ drop (Suc i) (m_particle_grid_pair_num s)" and
    ce: "cerr s' = cerr s"
    by simp
  from par have lens:
    "length (m_is_bc_particle s) = ?n" "length (m_particle_initial_volume s) = ?n"
    "length (m_particle_grid_weight_and_gradient s) = ?n" "length (m_particle_grid_pair_num s) = ?n"
    by (simp_all add: parallel_def)
  have cnt: "particleNum s' = particleNum s - 1"
    using i by (simp add: particleNum_def ps)
  have par': "parallel s'"
    using i lens by (simp add: parallel_def ps vs bs ws ns)
  have others: "map_of (heap s') b = map_of (heap s) b" if "Addr b \<noteq> m_particles s ! i" for b
    using that by (cases "m_particles s ! i") (auto simp: hp map_of_released)
  have same_object: "deref (heap s') p = deref (heap s) p"
    if "p = m_particles s ! i \<longrightarrow> m_particles s ! i = NULL" for p
  proof (cases p)
    case NULL
    then show ?thesis by (simp add: deref_def)
  next
    case (Addr b)
    with that have "Addr b \<noteq> m_particles s ! i" by auto
    from others [OF this] Addr show ?thesis by (simp add: deref_Addr)
  qed
  have len': "length (m_particles s') = ?n - 1" using i by (simp add: ps)
  have up: "((m_particles s ! Suc j = m_particles s ! i \<longrightarrow> m_particles s ! i = NULL) \<longrightarrow>
                     particle s' j = particle s (Suc j))
      \<and> m_particles s' ! j = m_particles s ! Suc j
      \<and> m_is_bc_particle s' ! j = m_is_bc_particle s ! Suc j
      \<and> m_particle_initial_volume s' ! j = m_particle_initial_volume s ! Suc j
      \<and> m_particle_grid_weight_and_gradient s' ! j = m_particle_grid_weight_and_gradient s ! Suc j
      \<and> m_particle_grid_pair_num s' ! j = m_particle_grid_pair_num s ! Suc j"
    if "i \<le> j \<and> j < particleNum s'" for j
  proof -
    from that cnt have j: "j < ?n - 1" "\<not> j < i" by (simp_all add: particleNum_def)
    have p: "m_particles s' ! j = m_particles s ! Suc j"
      using i j by (simp add: ps nth_erased)
    have "particle s' j = particle s (Suc j)"
      if "m_particles s ! Suc j = m_particles s ! i \<longrightarrow> m_particles s ! i = NULL"
      using j p len' same_object [OF that] by (simp add: particle_def ce)
    then show ?thesis
      using i j p lens by (simp add: vs bs ws ns nth_erased)
  qed
  have low: "((m_particles s ! j = m_particles s ! i \<longrightarrow> m_particles s ! i = NULL) \<longrightarrow>
                     particle s' j = particle s j)
      \<and> m_particles s' ! j = m_particles s ! j
      \<and> m_is_bc_particle s' ! j = m_is_bc_particle s ! j
      \<and> m_particle_initial_volume s' ! j = m_particle_initial_volume s ! j
      \<and> m_particle_grid_weight_and_gradient s' ! j = m_particle_grid_weight_and_gradient s ! j
      \<and> m_particle_grid_pair_num s' ! j = m_particle_grid_pair_num s ! j"
    if "j < i" for j
  proof -
    from that i have j: "j < ?n - 1" "j < i" by simp_all
    have p: "m_particles s' ! j = m_particles s ! j"
      using i j by (simp add: ps nth_erased)
    have "particle s' j = particle s j"
      if "m_particles s ! j = m_particles s ! i \<longrightarrow> m_particles s ! i = NULL"
      using j i p len' same_object [OF that] by (simp add: particle_def ce)
    then show ?thesis
      using i j p lens by (simp add: vs bs ws ns nth_erased)
  qed
  from run cnt par' up low others ce show ?thesis by blast
qed



text \<open>
  Claim C6. For every container and every index that is not below the count,
  \<open>removeParticle\<close> returns normally; the state it leaves is the state before with one
  warning appended to \<open>std::cerr\<close>, so the count, the four parallel sequences and the free
  store are unchanged.
\<close>

theorem removeParticle_out_of_range:
  "particleNum s \<le> particle_idx \<Longrightarrow>
     removeParticle s particle_idx = Inr (s\<lparr>cerr := cerr s @ [Warning_Index_Out_Of_Range]\<rparr>)"
  by (simp add: removeParticle_def particleNum_def)

theorem removeParticle_out_of_range_witness:
  "particleNum (new_base [] None) \<le> 0 \<and>
   removeParticle (new_base [] None) 0 = Inr ((new_base [] None)\<lparr>cerr := [Warning_Index_Out_Of_Range]\<rparr>)"
  using removeParticle_out_of_range [of "new_base [] None" 0]
  by (simp add: particleNum_def new_base_def)

section \<open>Sequences of additions and removals\<close>

lemma consistent_new_base: "consistent Dim (new_base h k)"
  by (simp add: consistent_def parallel_def new_base_def particleNum_def)

lemma addParticle_Inr:
  assumes "addParticle Dim s a = Inr s'"
  shows "\<exists>p k. map_of (heap s) a = Some p \<and> m_weight_function s = Some k \<and>
     s' = s\<lparr>heap := (fresh (heap s), p) # heap s,
            m_particles := m_particles s @ [Addr (fresh (heap s))],
            m_is_bc_particle := m_is_bc_particle s @ [0],
            m_particle_initial_volume := m_particle_initial_volume s @ [volume p],
            m_particle_grid_weight_and_gradient :=
              m_particle_grid_weight_and_gradient s @ [replicate (max_num Dim (supportRadius k)) default_pair],
            m_particle_grid_pair_num := m_particle_grid_pair_num s @ [0]\<rparr>"
proof (cases "map_of (heap s) a")
  case None
  with assms show ?thesis by (simp add: addParticle_def clone_def deref_Addr)
next
  case (Some p)
  show ?thesis
  proof (cases "m_weight_function s")
    case None
    with Some assms show ?thesis
      by (simp add: addParticle_def clone_live deref_Addr appendSpaceForWeightAndGradient_def)
  next
    case (Some k)
    with \<open>map_of (heap s) a = Some p\<close> assms show ?thesis
      by (simp add: addParticle_def clone_live deref_Addr appendSpaceForWeightAndGradient_def)
  qed
qed

lemma owned_live:
  assumes "consistent Dim s" and "i < length (m_particles s)"
  shows "\<exists>a v. m_particles s ! i = Addr a \<and> map_of (heap s) a = Some v"
proof -
  from assms have "entry_consistent Dim s i"
    by (simp add: consistent_def particleNum_def)
  then show ?thesis
    by (cases "m_particles s ! i"; cases "map_of (heap s) (case m_particles s ! i of Addr a \<Rightarrow> a | NULL \<Rightarrow> 0)")
       (simp_all add: entry_consistent_def)
qed

lemma addParticle_consistent:
  assumes inv: "consistent Dim s" and run: "addParticle Dim s a = Inr s'"
  shows "consistent Dim s'"
proof -
  let ?c = "fresh (heap s)"
  from addParticle_Inr [OF run] obtain p k where
    live: "map_of (heap s) a = Some p" and kernel: "m_weight_function s = Some k" and
    s': "s' = s\<lparr>heap := (?c, p) # heap s,
            m_particles := m_particles s @ [Addr ?c],
            m_is_bc_particle := m_is_bc_particle s @ [0],
            m_particle_initial_volume := m_particle_initial_volume s @ [volume p],
            m_particle_grid_weight_and_gradient :=
              m_particle_grid_weight_and_gradient s @ [replicate (max_num Dim (supportRadius k)) default_pair],
            m_particle_grid_pair_num := m_particle_grid_pair_num s @ [0]\<rparr>"
    by blast
  let ?n = "length (m_particles s)"
  from inv have par: "parallel s" and dist: "distinct (m_particles s)"
    and ent: "\<And>i. i < ?n \<Longrightarrow> entry_consistent Dim s i"
    by (simp_all add: consistent_def particleNum_def)
  from par have lens:
    "length (m_is_bc_particle s) = ?n" "length (m_particle_initial_volume s) = ?n"
    "length (m_particle_grid_weight_and_gradient s) = ?n" "length (m_particle_grid_pair_num s) = ?n"
    by (simp_all add: parallel_def)
  have new: "Addr ?c \<notin> set (m_particles s)"
  proof
    assume "Addr ?c \<in> set (m_particles s)"
    then obtain i where "i < ?n" "m_particles s ! i = Addr ?c"
      by (auto simp: in_set_conv_nth)
    with owned_live [OF inv, of i] show False
      by (simp add: fresh_not_live)
  qed
  have par': "parallel s'"
    using lens by (simp add: s' parallel_def)
  have dist': "distinct (m_particles s')"
    using dist new by (simp add: s')
  have ent': "entry_consistent Dim s' i" if "i < particleNum s'" for i
  proof (cases "i < ?n")
    case True
    from owned_live [OF inv True] obtain b v where
      b: "m_particles s ! i = Addr b" "map_of (heap s) b = Some v" by blast
    then have "b \<noteq> ?c" by (auto simp: fresh_not_live)
    with ent [OF True] True b lens kernel show ?thesis
      by (simp add: entry_consistent_def s' nth_append)
  next
    case False
    with that have "i = ?n" by (simp add: s' particleNum_def)
    with lens kernel show ?thesis
      by (simp add: entry_consistent_def s' nth_append)
  qed
  from par' dist' ent' show ?thesis by (simp add: consistent_def)
qed

lemma removeParticle_consistent:
  assumes inv: "consistent Dim s"
  shows "\<exists>s'. removeParticle s i = Inr s' \<and> consistent Dim s' \<and>
           (\<forall>b. Addr b \<notin> set (m_particles s) \<longrightarrow> map_of (heap s') b = map_of (heap s) b) \<and>
           set (m_particles s') \<subseteq> set (m_particles s)"
proof (cases "i < length (m_particles s)")
  case False
  then have "removeParticle s i = Inr (s\<lparr>cerr := cerr s @ [Warning_Index_Out_Of_Range]\<rparr>)"
    by (simp add: removeParticle_def)
  moreover have "consistent Dim (s\<lparr>cerr := cerr s @ [Warning_Index_Out_Of_Range]\<rparr>)"
    using inv by (simp add: consistent_def parallel_def particleNum_def entry_consistent_def
        cong: ptr.case_cong option.case_cong)
  ultimately show ?thesis by simp
next
  case True
  let ?n = "length (m_particles s)"
  from inv have par: "parallel s" and dist: "distinct (m_particles s)"
    and ent: "\<And>j. j < ?n \<Longrightarrow> entry_consistent Dim s j"
    by (simp_all add: consistent_def particleNum_def)
  from owned_live [OF inv True] obtain a v where
    a: "m_particles s ! i = Addr a" "map_of (heap s) a = Some v" by blast
  then have rel: "releasable (heap s) (m_particles s ! i)"
    by (simp add: releasable_def)
  from True have inb: "i < particleNum s" by (simp add: particleNum_def)
  from removeParticle_shift [OF inb par rel] obtain s' where
    run: "removeParticle s i = Inr s'" and cnt: "particleNum s' = particleNum s - 1"
    and par': "parallel s'"
    and up: "\<And>j. i \<le> j \<and> j < particleNum s' \<Longrightarrow>
                  m_particles s' ! j = m_particles s ! Suc j
                \<and> m_is_bc_particle s' ! j = m_is_bc_particle s ! Suc j
                \<and> m_particle_initial_volume s' ! j = m_particle_initial_volume s ! Suc j
                \<and> m_particle_grid_weight_and_gradient s' ! j = m_particle_grid_weight_and_gradient s ! Suc j
                \<and> m_particle_grid_pair_num s' ! j = m_particle_grid_pair_num s ! Suc j"
    and low: "\<And>j. j < i \<Longrightarrow>
                  m_particles s' ! j = m_particles s ! j
                \<and> m_is_bc_particle s' ! j = m_is_bc_particle s ! j
                \<and> m_particle_initial_volume s' ! j = m_particle_initial_volume s ! j
                \<and> m_particle_grid_weight_and_gradient s' ! j = m_particle_grid_weight_and_gradient s ! j
                \<and> m_particle_grid_pair_num s' ! j = m_particle_grid_pair_num s ! j"
    and others: "\<And>b. Addr b \<noteq> m_particles s ! i \<Longrightarrow> map_of (heap s') b = map_of (heap s) b"
    by blast
  from removeParticle_in_range [OF True par rel] run
  have ps: "m_particles s' = take i (m_particles s) @ drop (Suc i) (m_particles s)"
    and wf: "m_weight_function s' = m_weight_function s"
    by auto
  have sub: "set (m_particles s') \<subseteq> set (m_particles s)"
    unfolding ps using set_take_subset [of i "m_particles s"] set_drop_subset [of "Suc i" "m_particles s"]
    by auto
  have dist': "distinct (m_particles s')"
    unfolding ps using dist by (rule distinct_erased)
  have ent': "entry_consistent Dim s' j" if "j < particleNum s'" for j
  proof -
    define j' where "j' = (if j < i then j else Suc j)"
    from that cnt True have j': "j' < ?n" "j' \<noteq> i"
      by (auto simp: j'_def particleNum_def)
    have same: "m_particles s' ! j = m_particles s ! j'
                \<and> m_is_bc_particle s' ! j = m_is_bc_particle s ! j'
                \<and> m_particle_initial_volume s' ! j = m_particle_initial_volume s ! j'
                \<and> m_particle_grid_weight_and_gradient s' ! j = m_particle_grid_weight_and_gradient s ! j'
                \<and> m_particle_grid_pair_num s' ! j = m_particle_grid_pair_num s ! j'"
      using up [of j] low [of j] that by (cases "j < i") (simp_all add: j'_def)
    from owned_live [OF inv j'(1)] obtain b w where
      b: "m_particles s ! j' = Addr b" "map_of (heap s) b = Some w" by blast
    from dist j' True have "m_particles s ! j' \<noteq> m_particles s ! i"
      by (simp add: nth_eq_iff_index_eq)
    with b others [of b] have "map_of (heap s') b = Some w" by simp
    with ent [OF j'(1)] same b wf show ?thesis
      by (simp add: entry_consistent_def split: option.splits)
  qed
  have frame: "map_of (heap s') b = map_of (heap s) b" if "Addr b \<notin> set (m_particles s)" for b
  proof -
    from True have "m_particles s ! i \<in> set (m_particles s)" by simp
    with that have "Addr b \<noteq> m_particles s ! i" by auto
    then show ?thesis by (rule others)
  qed
  from run par' dist' ent' frame sub show ?thesis
    by (simp add: consistent_def)
qed

lemma removeParticle_kernel:
  "removeParticle s i = Inr s' \<Longrightarrow> m_weight_function s' = m_weight_function s"
  by (auto simp: removeParticle_def and_then_eq_Inr split: if_splits)

lemma apply_operation_consistent:
  "consistent Dim s \<Longrightarrow> apply_operation Dim s op = Inr s' \<Longrightarrow> consistent Dim s'"
proof (cases op)
  case (Add a)
  assume "consistent Dim s" "apply_operation Dim s op = Inr s'"
  with Add show ?thesis by (simp add: addParticle_consistent)
next
  case (RemoveAt i)
  assume "consistent Dim s" "apply_operation Dim s op = Inr s'"
  with RemoveAt removeParticle_consistent [of Dim s i] show ?thesis by auto
qed

lemma run_consistent:
  "consistent Dim s \<Longrightarrow> run Dim s ops = Inr s' \<Longrightarrow> consistent Dim s'"
proof (induction ops arbitrary: s)
  case Nil
  then show ?case by simp
next
  case (Cons op ops)
  from Cons.prems(2) obtain s1 where
    s1: "apply_operation Dim s op = Inr s1" and rest: "run Dim s1 ops = Inr s'"
    by (auto simp: and_then_eq_Inr)
  from Cons.prems(1) s1 have "consistent Dim s1" by (rule apply_operation_consistent)
  then show ?case using rest by (rule Cons.IH)
qed

lemma run_total:
  assumes "consistent Dim s" and "m_weight_function s \<noteq> None"
      and "\<forall>a \<in> set (added ops). map_of (heap s) a \<noteq> None \<and> Addr a \<notin> set (m_particles s)"
  shows "\<exists>s'. run Dim s ops = Inr s'"
  using assms
proof (induction ops arbitrary: s)
  case Nil
  show ?case by simp
next
  case (Cons op ops)
  show ?case
  proof (cases op)
    case (Add a)
    with Cons.prems(3) obtain p where live: "map_of (heap s) a = Some p" by auto
    from Cons.prems(2) obtain k where kernel: "m_weight_function s = Some k" by auto
    define s1 where "s1 = s\<lparr>heap := (fresh (heap s), p) # heap s,
            m_particles := m_particles s @ [Addr (fresh (heap s))],
            m_is_bc_particle := m_is_bc_particle s @ [0],
            m_particle_initial_volume := m_particle_initial_volume s @ [volume p],
            m_particle_grid_weight_and_gradient :=
              m_particle_grid_weight_and_gradient s @ [replicate (max_num Dim (supportRadius k)) default_pair],
            m_particle_grid_pair_num := m_particle_grid_pair_num s @ [0]\<rparr>"
    have step: "addParticle Dim s a = Inr s1"
      using live kernel
      by (simp add: addParticle_def clone_live deref_Addr appendSpaceForWeightAndGradient_def s1_def)
    then have inv1: "consistent Dim s1"
      using Cons.prems(1) by (simp add: addParticle_consistent)
    have k1: "m_weight_function s1 \<noteq> None" using kernel by (simp add: s1_def)
    have "\<forall>b \<in> set (added ops). map_of (heap s1) b \<noteq> None \<and> Addr b \<notin> set (m_particles s1)"
    proof
      fix b assume "b \<in> set (added ops)"
      with Cons.prems(3) Add have b: "map_of (heap s) b \<noteq> None" "Addr b \<notin> set (m_particles s)"
        by simp_all
      then have "b \<noteq> fresh (heap s)" by (auto simp: fresh_not_live)
      with b show "map_of (heap s1) b \<noteq> None \<and> Addr b \<notin> set (m_particles s1)"
        by (simp add: s1_def)
    qed
    with inv1 k1 have "\<exists>s'. run Dim s1 ops = Inr s'" by (rule Cons.IH)
    with step Add show ?thesis by simp
  next
    case (RemoveAt i)
    from removeParticle_consistent [OF Cons.prems(1), of i] obtain s1 where
      step: "removeParticle s i = Inr s1" and inv1: "consistent Dim s1"
      and frame: "\<And>b. Addr b \<notin> set (m_particles s) \<Longrightarrow> map_of (heap s1) b = map_of (heap s) b"
      and sub: "set (m_particles s1) \<subseteq> set (m_particles s)"
      by blast
    have k1: "m_weight_function s1 \<noteq> None"
      using removeParticle_kernel [OF step] Cons.prems(2) by simp
    have "\<forall>b \<in> set (added ops). map_of (heap s1) b \<noteq> None \<and> Addr b \<notin> set (m_particles s1)"
    proof
      fix b assume "b \<in> set (added ops)"
      with Cons.prems(3) RemoveAt have b: "map_of (heap s) b \<noteq> None" "Addr b \<notin> set (m_particles s)"
        by simp_all
      with frame [of b] sub show "map_of (heap s1) b \<noteq> None \<and> Addr b \<notin> set (m_particles s1)"
        by auto
    qed
    with inv1 k1 have "\<exists>s'. run Dim s1 ops = Inr s'" by (rule Cons.IH)
    with step RemoveAt show ?thesis by simp
  qed
qed

lemma added_take: "set (added (take n ops)) \<subseteq> set (added ops)"
proof (induction ops arbitrary: n)
  case Nil
  show ?case by simp
next
  case (Cons op ops)
  show ?case
  proof (cases n)
    case 0
    then show ?thesis by simp
  next
    case (Suc m)
    with Cons.IH [of m] show ?thesis by (cases op) auto
  qed
qed

text \<open>
  Claim C1. Start from a newly constructed container with a kernel and apply any sequence of
  \<open>addParticle\<close> and \<open>removeParticle\<close> calls. Whenever the sequence returns normally, the
  state is consistent: the flag, initial-volume, cache-slot and counter sequences are as
  long as the particle sequence, no two indices share a particle, and at every index the
  pointer, the initial volume, the flag, the cache slot and its counter belong together
  (\<open>entry_consistent\<close>). The sequence does return normally whenever every particle passed to
  \<open>addParticle\<close> is a live object of the caller. The statement is about every prefix
  \<open>take n ops\<close> of the sequence, that is, about the state after each operation.
\<close>

theorem add_remove_keep_sequences_consistent:
  "(run Dim (new_base h w) (take n ops) = Inr s \<longrightarrow> consistent Dim s) \<and>
   (w \<noteq> None \<and> (\<forall>a \<in> set (added ops). map_of h a \<noteq> None) \<longrightarrow>
      (\<exists>s'. run Dim (new_base h w) (take n ops) = Inr s' \<and> consistent Dim s'))"
proof (intro conjI impI)
  assume "run Dim (new_base h w) (take n ops) = Inr s"
  with consistent_new_base show "consistent Dim s" by (rule run_consistent)
next
  assume live: "w \<noteq> None \<and> (\<forall>a \<in> set (added ops). map_of h a \<noteq> None)"
  have "\<exists>s'. run Dim (new_base h w) (take n ops) = Inr s'"
  proof (rule run_total)
    show "consistent Dim (new_base h w)" by (rule consistent_new_base)
    show "m_weight_function (new_base h w) \<noteq> None" using live by (simp add: new_base_def)
    show "\<forall>a \<in> set (added (take n ops)). map_of (heap (new_base h w)) a \<noteq> None
            \<and> Addr a \<notin> set (m_particles (new_base h w))"
      using live added_take [of n ops] by (auto simp: new_base_def)
  qed
  then obtain s' where "run Dim (new_base h w) (take n ops) = Inr s'" ..
  moreover from consistent_new_base this have "consistent Dim s'" by (rule run_consistent)
  ultimately show "\<exists>s'. run Dim (new_base h w) (take n ops) = Inr s' \<and> consistent Dim s'"
    by blast
qed

theorem add_remove_keep_sequences_consistent_witness:
  "\<exists>s'. run 2 (new_base [(1, p0)] (Some (Kernel 1))) (take 3 [Add 1, Add 1, RemoveAt 0, RemoveAt 7]) = Inr s'
      \<and> consistent 2 s'"
proof -
  have "Some (Kernel 1) \<noteq> None
      \<and> (\<forall>a \<in> set (added [Add 1, Add 1, RemoveAt 0, RemoveAt 7]). map_of [(1, p0)] a \<noteq> None)"
    by simp
  with add_remove_keep_sequences_consistent
    [of 2 "[(1, p0)]" "Some (Kernel 1)" 3 "[Add 1, Add 1, RemoveAt 0, RemoveAt 7]"]
  show ?thesis by blast
qed

section \<open>Boundary flags\<close>

lemma addBCParticle_eq:
  assumes "length (m_is_bc_particle s) = length (m_particles s)"
  shows "addBCParticle s i =
     Inr (s\<lparr>m_is_bc_particle := (m_is_bc_particle s)[i := 1],
            cerr := cerr s @ (if length (m_particles s) \<le> i then [Warning_Index_Out_Of_Range] else [])\<rparr>)"
proof (cases "length (m_particles s) \<le> i")
  case True
  with assms have "(m_is_bc_particle s)[i := 1] = m_is_bc_particle s"
    by (simp add: list_update_beyond)
  with True show ?thesis by (simp add: addBCParticle_def)
next
  case False
  with assms show ?thesis by (simp add: addBCParticle_def assign_def)
qed

lemma addBCParticles_eq:
  assumes "length (m_is_bc_particle s) = length (m_particles s)"
  shows "addBCParticles s js =
     Inr (s\<lparr>m_is_bc_particle := fold (\<lambda>i bs. bs[i := 1]) js (m_is_bc_particle s),
            cerr := cerr s @ map (\<lambda>i. Warning_Index_Out_Of_Range)
                                (filter (\<lambda>i. length (m_particles s) \<le> i) js)\<rparr>)"
  using assms
proof (induction js arbitrary: s)
  case Nil
  show ?case by simp
next
  case (Cons i js)
  let ?s1 = "s\<lparr>m_is_bc_particle := (m_is_bc_particle s)[i := 1],
            cerr := cerr s @ (if length (m_particles s) \<le> i then [Warning_Index_Out_Of_Range] else [])\<rparr>"
  have len: "length (m_is_bc_particle ?s1) = length (m_particles ?s1)"
    using Cons.prems by simp
  have "addBCParticles s (i # js) = addBCParticles ?s1 js"
    using Cons.prems by (simp add: addBCParticle_eq)
  also note Cons.IH [OF len]
  finally show ?case by simp
qed

lemma addBCParticle_calls_eq: "addBCParticle_calls s is = addBCParticles s is"
  by (induction "is" arbitrary: s) (simp_all add: and_then_def split: sum.splits)

lemma mark_then_marks_eq:
  assumes "length (m_is_bc_particle s) = length (m_particles s)"
  shows "mark_then_marks s is js =
     Inr (s\<lparr>m_is_bc_particle := fold (\<lambda>i bs. bs[i := 1]) (is @ js) (m_is_bc_particle s),
            cerr := cerr s @ map (\<lambda>i. Warning_Index_Out_Of_Range)
                                (filter (\<lambda>i. length (m_particles s) \<le> i) (is @ js))\<rparr>)"
proof -
  let ?s1 = "s\<lparr>m_is_bc_particle := fold (\<lambda>i bs. bs[i := 1]) is (m_is_bc_particle s),
            cerr := cerr s @ map (\<lambda>i. Warning_Index_Out_Of_Range)
                                (filter (\<lambda>i. length (m_particles s) \<le> i) is)\<rparr>"
  have first: "addBCParticle_calls s is = Inr ?s1"
    unfolding addBCParticle_calls_eq by (rule addBCParticles_eq [OF assms])
  have len: "length (m_is_bc_particle ?s1) = length (m_particles ?s1)"
    using assms by (simp add: length_marked)
  have "mark_then_marks s is js = addBCParticles ?s1 js"
    by (simp add: mark_then_marks_def first)
  also note addBCParticles_eq [OF len, of js]
  finally show ?thesis by simp
qed

lemma flagged_container_reached:
  "and_then (addParticle 2 one_particle 1) (\<lambda>s. addBCParticle s 1) = Inr flagged_container"
  by (simp add: addParticle_def clone_live deref_Addr appendSpaceForWeightAndGradient_def
      one_particle_def flagged_container_def fresh_def max_num_eq p0_def addBCParticle_def assign_def)

text \<open>
  Claim C9, as stated, fails on a container that already has a flag set: in
  \<open>flagged_container\<close> the flag of index 1 was set earlier; after \<open>addBCParticle(0)\<close> and
  \<open>addBCParticles([0])\<close> the flag of index 1 is still set, although index 1 is in neither
  of the two index sets.
\<close>

theorem marking_keeps_earlier_flags:
  "mark_then_marks flagged_container [0] [0] = Inr (flagged_container\<lparr>m_is_bc_particle := [1, 1]\<rparr>)
   \<and> m_is_bc_particle (flagged_container\<lparr>m_is_bc_particle := [1, 1]\<rparr>) ! 1 \<noteq> 0
   \<and> (1 :: nat) \<notin> set [0] \<union> set [0]"
  by (simp add: mark_then_marks_def addBCParticle_def assign_def flagged_container_def)

text \<open>
  Claim C9, amended. For every container whose flag sequence is as long as its particle
  sequence and all lists of indices \<open>is\<close> and \<open>js\<close>, valid or not, marking the indices of
  \<open>is\<close> by \<open>addBCParticle\<close> and then those of \<open>js\<close> by \<open>addBCParticles\<close> returns normally;
  afterwards the flag of a valid index is 1 when the index is in \<open>is\<close> or in \<open>js\<close>, and is
  what it was before otherwise. So on a container without flags the flags are set exactly
  at the valid marked indices. An invalid index only writes one warning to \<open>std::cerr\<close>:
  the output afterwards is the output before followed by one warning for each invalid index
  of \<open>is\<close> and \<open>js\<close>. Nothing but the flags and \<open>std::cerr\<close> changes, and marking the same
  indices once more leaves the flags as they are.
\<close>

theorem mark_then_marks_flags:
  assumes len: "length (m_is_bc_particle s) = particleNum s"
  shows "\<exists>s'. mark_then_marks s is js = Inr s'
           \<and> particleNum s' = particleNum s
           \<and> length (m_is_bc_particle s') = particleNum s
           \<and> (\<forall>j < particleNum s.
                 m_is_bc_particle s' ! j = (if j \<in> set is \<union> set js then 1 else m_is_bc_particle s ! j))
           \<and> ((\<forall>j < particleNum s. m_is_bc_particle s ! j = 0) \<longrightarrow>
                (\<forall>j < particleNum s. (m_is_bc_particle s' ! j \<noteq> 0) = (j \<in> set is \<union> set js)))
           \<and> m_particles s' = m_particles s
           \<and> m_particle_initial_volume s' = m_particle_initial_volume s
           \<and> m_particle_grid_weight_and_gradient s' = m_particle_grid_weight_and_gradient s
           \<and> m_particle_grid_pair_num s' = m_particle_grid_pair_num s
           \<and> heap s' = heap s
           \<and> cerr s' = cerr s @ map (\<lambda>i. Warning_Index_Out_Of_Range)
                                    (filter (\<lambda>i. particleNum s \<le> i) (is @ js))
           \<and> (\<exists>s''. mark_then_marks s' is js = Inr s'' \<and> m_is_bc_particle s'' = m_is_bc_particle s')"
proof -
  let ?n = "length (m_particles s)"
  let ?bs = "fold (\<lambda>i bs. bs[i := 1]) (is @ js) (m_is_bc_particle s)"
  define s' where "s' = s\<lparr>m_is_bc_particle := ?bs,
            cerr := cerr s @ map (\<lambda>i. Warning_Index_Out_Of_Range)
                                (filter (\<lambda>i. ?n \<le> i) (is @ js))\<rparr>"
  from len have len0: "length (m_is_bc_particle s) = ?n" by (simp add: particleNum_def)
  have run: "mark_then_marks s is js = Inr s'"
    unfolding s'_def by (rule mark_then_marks_eq [OF len0])
  have bs': "m_is_bc_particle s' = ?bs" by (simp add: s'_def)
  have len': "length (m_is_bc_particle s') = ?n"
    using len0 by (simp only: bs' length_marked)
  have flags: "m_is_bc_particle s' ! j = (if j \<in> set is \<union> set js then 1 else m_is_bc_particle s ! j)"
    if "j < ?n" for j
  proof -
    from that len0 have "j < length (m_is_bc_particle s)" by simp
    from nth_marked [OF this, of 1 "is @ js"] show ?thesis
      by (simp only: bs' set_append)
  qed
  have fresh: "(m_is_bc_particle s' ! j \<noteq> 0) = (j \<in> set is \<union> set js)"
    if "\<forall>j < ?n. m_is_bc_particle s ! j = 0" and "j < ?n" for j
    using that flags [of j] by simp
  have same: "m_particles s' = m_particles s" by (simp add: s'_def)
  from len' same have len'': "length (m_is_bc_particle s') = length (m_particles s')" by simp
  define s'' where "s'' = s'\<lparr>m_is_bc_particle := fold (\<lambda>i bs. bs[i := 1]) (is @ js) (m_is_bc_particle s'),
            cerr := cerr s' @ map (\<lambda>i. Warning_Index_Out_Of_Range)
                                (filter (\<lambda>i. length (m_particles s') \<le> i) (is @ js))\<rparr>"
  have again: "mark_then_marks s' is js = Inr s''"
    unfolding s''_def by (rule mark_then_marks_eq [OF len''])
  have bs'': "m_is_bc_particle s'' = fold (\<lambda>i bs. bs[i := 1]) (is @ js) (m_is_bc_particle s')"
    by (simp add: s''_def)
  have idem: "m_is_bc_particle s'' = m_is_bc_particle s'"
  proof (rule nth_equalityI)
    show "length (m_is_bc_particle s'') = length (m_is_bc_particle s')"
      by (simp only: bs'' length_marked)
  next
    fix j assume "j < length (m_is_bc_particle s'')"
    then have j: "j < ?n" using len' by (simp only: bs'' length_marked)
    then have "j < length (m_is_bc_particle s')" using len' by simp
    from nth_marked [OF this, of 1 "is @ js"] have
      "m_is_bc_particle s'' ! j = (if j \<in> set (is @ js) then 1 else m_is_bc_particle s' ! j)"
      by (simp only: bs'')
    with flags [OF j] show "m_is_bc_particle s'' ! j = m_is_bc_particle s' ! j" by simp
  qed
  have twice: "\<exists>s''. mark_then_marks s' is js = Inr s'' \<and> m_is_bc_particle s'' = m_is_bc_particle s'"
    using again idem by blast
  have count: "particleNum s' = particleNum s" by (simp add: s'_def particleNum_def)
  have rest: "m_particle_initial_volume s' = m_particle_initial_volume s"
    "m_particle_grid_weight_and_gradient s' = m_particle_grid_weight_and_gradient s"
    "m_particle_grid_pair_num s' = m_particle_grid_pair_num s" "heap s' = heap s"
    "cerr s' = cerr s @ map (\<lambda>i. Warning_Index_Out_Of_Range) (filter (\<lambda>i. ?n \<le> i) (is @ js))"
    by (simp_all add: s'_def)
  have "mark_then_marks s is js = Inr s'
           \<and> particleNum s' = particleNum s
           \<and> length (m_is_bc_particle s') = particleNum s
           \<and> (\<forall>j < particleNum s.
                 m_is_bc_particle s' ! j = (if j \<in> set is \<union> set js then 1 else m_is_bc_particle s ! j))
           \<and> ((\<forall>j < particleNum s. m_is_bc_particle s ! j = 0) \<longrightarrow>
                (\<forall>j < particleNum s. (m_is_bc_particle s' ! j \<noteq> 0) = (j \<in> set is \<union> set js)))
           \<and> m_particles s' = m_particles s
           \<and> m_particle_initial_volume s' = m_particle_initial_volume s
           \<and> m_particle_grid_weight_and_gradient s' = m_particle_grid_weight_and_gradient s
           \<and> m_particle_grid_pair_num s' = m_particle_grid_pair_num s
           \<and> heap s' = heap s
           \<and> cerr s' = cerr s @ map (\<lambda>i. Warning_Index_Out_Of_Range)
                                    (filter (\<lambda>i. particleNum s \<le> i) (is @ js))
           \<and> (\<exists>s''. mark_then_marks s' is js = Inr s'' \<and> m_is_bc_particle s'' = m_is_bc_particle s')"
    unfolding particleNum_def
    using run len' flags fresh same rest twice by (intro conjI allI impI) simp_all
  then show ?thesis ..
qed

theorem mark_then_marks_flags_witness:
  "\<exists>s'. mark_then_marks four_particles [0, 9] [7, 0, 3] = Inr s'
      \<and> m_is_bc_particle s' ! 0 = 1 \<and> m_is_bc_particle s' ! 1 = 0
      \<and> m_is_bc_particle s' ! 2 = 1 \<and> m_is_bc_particle s' ! 3 = 1
      \<and> m_is_bc_particle four_particles ! 1 = 0 \<and> m_is_bc_particle four_particles ! 2 = 1
      \<and> cerr s' = [Warning_Index_Out_Of_Range, Warning_Index_Out_Of_Range]"
proof -
  have 1: "length (m_is_bc_particle four_particles) = particleNum four_particles"
    by (simp add: four_particles_def particleNum_def)
  note r = mark_then_marks_flags [OF 1, of "[0, 9]" "[7, 0, 3]"]
  from r obtain s' where
    run: "mark_then_marks four_particles [0, 9] [7, 0, 3] = Inr s'" and
    flags: "\<forall>j < particleNum four_particles.
              m_is_bc_particle s' ! j
                = (if j \<in> set [0, 9] \<union> set [7, 0, 3] then 1 else m_is_bc_particle four_particles ! j)" and
    warn: "cerr s' = cerr four_particles @ map (\<lambda>i. Warning_Index_Out_Of_Range)
                       (filter (\<lambda>i. particleNum four_particles \<le> i) ([0, 9] @ [7, 0, 3]))"
    by (elim exE conjE) (rule that)
  have n: "particleNum four_particles = 4" by (simp add: four_particles_def particleNum_def)
  have old: "m_is_bc_particle four_particles = [0, 0, 1, 0]" "cerr four_particles = []"
    by (simp_all add: four_particles_def)
  from flags [rule_format, of 0] flags [rule_format, of 1] flags [rule_format, of 2]
    flags [rule_format, of 3] n
  have "m_is_bc_particle s' ! 0 = 1" "m_is_bc_particle s' ! 1 = 0"
    "m_is_bc_particle s' ! 2 = 1" "m_is_bc_particle s' ! 3 = 1"
    by (simp_all add: old)
  moreover from warn n have "cerr s' = [Warning_Index_Out_Of_Range, Warning_Index_Out_Of_Range]"
    by (simp add: old)
  moreover have "m_is_bc_particle four_particles ! 1 = 0" "m_is_bc_particle four_particles ! 2 = 1"
    by (simp_all add: old)
  ultimately show ?thesis using run
    by (intro exI [of _ s']) simp
qed

section \<open>Replacing all particles\<close>

lemma add_new_particle_data_step:
  assumes "p \<noteq> NULL" and "clone (heap s) p = Inr (Addr c, (c, v) # heap s)"
      and "i < length (m_particles s)" and "i < length (m_is_bc_particle s)"
      and "i < length (m_particle_initial_volume s)"
  shows "add_new_particle_data i (p # ps) s =
     add_new_particle_data (Suc i) ps
       (s\<lparr>heap := (c, v) # heap s, m_particles := (m_particles s)[i := Addr c],
          m_is_bc_particle := (m_is_bc_particle s)[i := 0],
          m_particle_initial_volume := (m_particle_initial_volume s)[i := volume v]\<rparr>)"
  using assms by (simp add: assign_def deref_Addr)

lemma add_new_particle_data_total:
  assumes "\<forall>p \<in> set ps. releasable (heap s) p"
      and "i + length ps \<le> length (m_particles s)"
      and "i + length ps \<le> length (m_is_bc_particle s)"
      and "i + length ps \<le> length (m_particle_initial_volume s)"
  shows "\<exists>s'. add_new_particle_data i ps s = Inr s'"
  using assms
proof (induction ps arbitrary: i s)
  case Nil
  show ?case by simp
next
  case (Cons p ps)
  show ?case
  proof (cases "p = NULL")
    case True
    let ?s1 = "s\<lparr>cerr := cerr s @ [Warning_Null_Particle i]\<rparr>"
    have "\<exists>s'. add_new_particle_data (Suc i) ps ?s1 = Inr s'"
      using Cons.prems by (intro Cons.IH) simp_all
    with True show ?thesis by simp
  next
    case False
    from Cons.prems(1) have "releasable (heap s) p" by simp
    from clone_releasable [OF this False] obtain v where
      cl: "clone (heap s) p = Inr (Addr (fresh (heap s)), (fresh (heap s), v) # heap s)" ..
    let ?s1 = "s\<lparr>heap := (fresh (heap s), v) # heap s,
          m_particles := (m_particles s)[i := Addr (fresh (heap s))],
          m_is_bc_particle := (m_is_bc_particle s)[i := 0],
          m_particle_initial_volume := (m_particle_initial_volume s)[i := volume v]\<rparr>"
    have step: "add_new_particle_data i (p # ps) s = add_new_particle_data (Suc i) ps ?s1"
      using False cl Cons.prems by (intro add_new_particle_data_step) simp_all
    have "\<exists>s'. add_new_particle_data (Suc i) ps ?s1 = Inr s'"
      using Cons.prems by (intro Cons.IH) (simp_all add: releasable_alloc)
    with step show ?thesis by simp
  qed
qed

lemma add_new_particle_data_frame:
  assumes "add_new_particle_data i ps s = Inr s'"
  shows "length (m_particles s') = length (m_particles s)
       \<and> length (m_is_bc_particle s') = length (m_is_bc_particle s)
       \<and> length (m_particle_initial_volume s') = length (m_particle_initial_volume s)
       \<and> m_particle_grid_weight_and_gradient s' = m_particle_grid_weight_and_gradient s
       \<and> m_particle_grid_pair_num s' = m_particle_grid_pair_num s
       \<and> m_weight_function s' = m_weight_function s
       \<and> (\<forall>j. j < i \<or> i + length ps \<le> j \<or> ps ! (j - i) = NULL \<longrightarrow>
              m_particles s' ! j = m_particles s ! j
            \<and> m_is_bc_particle s' ! j = m_is_bc_particle s ! j
            \<and> m_particle_initial_volume s' ! j = m_particle_initial_volume s ! j)"
  using assms
proof (induction ps arbitrary: i s)
  case Nil
  then show ?case by simp
next
  case (Cons p ps)
  have idx: "j < Suc i \<or> Suc i + length ps \<le> j \<or> ps ! (j - Suc i) = NULL"
    if "j < i \<or> i + length (p # ps) \<le> j \<or> (p # ps) ! (j - i) = NULL" and "j \<noteq> i" for j
  proof -
    from that consider "j < i" | "i + length (p # ps) \<le> j" | "i < j" "(p # ps) ! (j - i) = NULL"
      by (cases "j < i") auto
    then show ?thesis
    proof cases
      case 3
      then have "j - i = Suc (j - Suc i)" by simp
      with 3 show ?thesis by simp
    qed simp_all
  qed
  show ?case
  proof (cases "p = NULL")
    case True
    let ?s1 = "s\<lparr>cerr := cerr s @ [Warning_Null_Particle i]\<rparr>"
    from Cons.prems True have "add_new_particle_data (Suc i) ps ?s1 = Inr s'" by simp
    note ih = Cons.IH [OF this]
    have "m_particles s' ! j = m_particles s ! j
            \<and> m_is_bc_particle s' ! j = m_is_bc_particle s ! j
            \<and> m_particle_initial_volume s' ! j = m_particle_initial_volume s ! j"
      if "j < i \<or> i + length (p # ps) \<le> j \<or> (p # ps) ! (j - i) = NULL" for j
    proof -
      have "j < Suc i \<or> Suc i + length ps \<le> j \<or> ps ! (j - Suc i) = NULL"
        using idx [OF that] by (cases "j = i") simp_all
      with ih have "m_particles s' ! j = m_particles ?s1 ! j
            \<and> m_is_bc_particle s' ! j = m_is_bc_particle ?s1 ! j
            \<and> m_particle_initial_volume s' ! j = m_particle_initial_volume ?s1 ! j"
        by blast
      then show ?thesis by simp
    qed
    with ih show ?thesis by simp
  next
    case False
    from Cons.prems False obtain c h ps1 bs1 v vs1 where
      cl: "clone (heap s) p = Inr (c, h)" and
      a1: "assign (m_particles s) i c = Inr ps1" and
      a2: "assign (m_is_bc_particle s) i 0 = Inr bs1" and
      d: "deref h c = Inr v" and
      a3: "assign (m_particle_initial_volume s) i (volume v) = Inr vs1" and
      rest: "add_new_particle_data (Suc i) ps
               (s\<lparr>heap := h, m_particles := ps1, m_is_bc_particle := bs1,
                  m_particle_initial_volume := vs1\<rparr>) = Inr s'"
      by (auto simp: and_then_eq_Inr)
    from a1 a2 a3 have upd: "ps1 = (m_particles s)[i := c]" "bs1 = (m_is_bc_particle s)[i := 0]"
      "vs1 = (m_particle_initial_volume s)[i := volume v]"
      by (auto simp: assign_def split: if_splits)
    note ih = Cons.IH [OF rest]
    have "m_particles s' ! j = m_particles s ! j
            \<and> m_is_bc_particle s' ! j = m_is_bc_particle s ! j
            \<and> m_particle_initial_volume s' ! j = m_particle_initial_volume s ! j"
      if "j < i \<or> i + length (p # ps) \<le> j \<or> (p # ps) ! (j - i) = NULL" for j
    proof -
      from that False have ne: "j \<noteq> i" by auto
      let ?s1 = "s\<lparr>heap := h, m_particles := ps1, m_is_bc_particle := bs1,
                  m_particle_initial_volume := vs1\<rparr>"
      from idx [OF that ne] ih have "m_particles s' ! j = m_particles ?s1 ! j
            \<and> m_is_bc_particle s' ! j = m_is_bc_particle ?s1 ! j
            \<and> m_particle_initial_volume s' ! j = m_particle_initial_volume ?s1 ! j"
        by blast
      with ne show ?thesis by (simp add: upd)
    qed
    with ih show ?thesis by (simp add: upd)
  qed
qed

lemma allocateSpaceForWeightAndGradient_kernel:
  "m_weight_function s = Some k \<Longrightarrow>
   allocateSpaceForWeightAndGradient Dim s =
     Inr (s\<lparr>m_particle_grid_weight_and_gradient :=
               resize (m_particle_grid_weight_and_gradient s) (length (m_particles s))
                 (replicate (max_num Dim (supportRadius k)) default_pair),
            m_particle_grid_pair_num := resize (m_particle_grid_pair_num s) (length (m_particles s)) 0\<rparr>)"
  by (simp add: allocateSpaceForWeightAndGradient_def)

lemma setParticles_loop:
  assumes "release (heap s) (m_particles s) = Inr h" and "m_weight_function s = Some k"
  shows "setParticles Dim s particles =
           add_new_particle_data 0 particles (resized Dim k h (length particles) s)"
  using assms
  by (simp add: setParticles_def allocateSpaceForWeightAndGradient_kernel resized_def length_resize)

text \<open>
  Claim C10. Let \<open>setParticles\<close> be called on a container with parallel sequences, a kernel,
  and pointers its release loop accepts, with input pointers that are null or live. If the
  input is null at an index \<open>i\<close> below both the old count and the size of the input, the call
  returns normally and the boundary flag and the initial volume at \<open>i\<close> are what they were
  before the call.
\<close>

theorem setParticles_null_keeps_flag_and_volume:
  assumes rel: "release (heap s) (m_particles s) = Inr h"
      and kernel: "m_weight_function s = Some k"
      and inputs: "\<forall>p \<in> set particles. releasable h p"
      and par: "parallel s"
      and old: "i < particleNum s"
      and new: "i < length particles"
      and null: "particles ! i = NULL"
  shows "\<exists>s'. setParticles Dim s particles = Inr s'
           \<and> m_is_bc_particle s' ! i = m_is_bc_particle s ! i
           \<and> m_particle_initial_volume s' ! i = m_particle_initial_volume s ! i"
proof -
  let ?n = "length particles"
  let ?s1 = "resized Dim k h ?n s"
  have loop: "setParticles Dim s particles = add_new_particle_data 0 particles ?s1"
    using rel kernel by (rule setParticles_loop)
  have "\<exists>s'. add_new_particle_data 0 particles ?s1 = Inr s'"
    using inputs by (intro add_new_particle_data_total) (simp_all add: resized_def length_resize)
  then obtain s' where s': "add_new_particle_data 0 particles ?s1 = Inr s'" ..
  from add_new_particle_data_frame [OF s'] null have
    "m_is_bc_particle s' ! i = m_is_bc_particle ?s1 ! i"
    "m_particle_initial_volume s' ! i = m_particle_initial_volume ?s1 ! i"
    by simp_all
  moreover from par old have "i < length (m_is_bc_particle s)" "i < length (m_particle_initial_volume s)"
    by (simp_all add: parallel_def particleNum_def)
  ultimately have "m_is_bc_particle s' ! i = m_is_bc_particle s ! i"
    "m_particle_initial_volume s' ! i = m_particle_initial_volume s ! i"
    using new by (simp_all add: resized_def nth_resize)
  with loop s' show ?thesis by simp
qed

theorem setParticles_null_keeps_flag_and_volume_witness:
  "\<exists>s'. setParticles 2 flagged_container [Addr 1, NULL] = Inr s'
      \<and> m_is_bc_particle s' ! 1 = 1 \<and> m_particle_initial_volume s' ! 1 = 2"
proof -
  have 1: "release (heap flagged_container) (m_particles flagged_container) = Inr [(1, p0)]"
    by (simp add: flagged_container_def delete_ptr_def)
  have 2: "m_weight_function flagged_container = Some (Kernel 1)"
    by (simp add: flagged_container_def)
  have 3: "\<forall>p \<in> set [Addr 1, NULL]. releasable [(1, p0)] p"
    by (simp add: releasable_def)
  have 4: "parallel flagged_container"
    by (simp add: flagged_container_def parallel_def)
  have 5: "1 < particleNum flagged_container"
    by (simp add: flagged_container_def particleNum_def)
  have 6: "1 < length [Addr 1, NULL]" by simp
  have 7: "[Addr 1, NULL] ! 1 = NULL" by simp
  from setParticles_null_keeps_flag_and_volume [OF 1 2 3 4 5 6 7, of 2]
  show ?thesis by (simp add: flagged_container_def)
qed

text \<open>On a newly constructed container the slot of a null input is null, the other input is
  cloned, and the warning is written.\<close>

lemma setParticles_on_empty:
  assumes "map_of h a = Some p"
  shows "\<exists>s' c. setParticles Dim (new_base h (Some k)) [NULL, Addr a] = Inr s'
      \<and> particleNum s' = 2
      \<and> m_particles s' = [NULL, Addr c]
      \<and> c \<noteq> a
      \<and> deref (heap s') (Addr c) = Inr p
      \<and> cerr s' = [Warning_Null_Particle 0]"
proof -
  have "fresh h \<noteq> a" using assms fresh_not_live [of h] by auto
  with assms show ?thesis
    by (simp add: setParticles_def new_base_def resize_def allocateSpaceForWeightAndGradient_def
        clone_live deref_Addr assign_def particleNum_def Let_def)
qed

text \<open>
  Claim C3 fails on a container that already holds a particle. In \<open>occupied\<close> slot 0 holds
  the address 2. \<open>setParticles([NULL, p1])\<close> returns normally with count 2, one warning, and a
  clone of \<open>p1\<close> in slot 1, but slot 0 still holds the address 2, whose object the release
  loop of the same call has deleted: the pointer is not null, reading through it is
  undefined, and so is the destructor, which deletes it again.
\<close>

theorem setParticles_leaves_stale_pointer:
  "\<exists>s'. setParticles 2 occupied [NULL, Addr 3] = Inr s'
      \<and> particleNum s' = 2
      \<and> m_particles occupied ! 0 = Addr 2
      \<and> m_particles s' ! 0 = Addr 2
      \<and> deref (heap s') (m_particles s' ! 0) = Inl Undefined_Behaviour
      \<and> deref (heap s') (m_particles s' ! 1) = Inr p1
      \<and> cerr s' = [Warning_Null_Particle 0]
      \<and> destructor s' = Inl Undefined_Behaviour"
  by (simp add: setParticles_def occupied_def one_particle_def delete_ptr_def resize_def
      allocateSpaceForWeightAndGradient_def max_num_eq clone_def deref_def assign_def fresh_def
      particleNum_def destructor_def)

text \<open>The cache after \<open>setParticles\<close>: \<open>resize\<close> of the old cache, so that only the slots
  beyond the old count have the size the current kernel asks for and a counter of 0.\<close>

lemma setParticles_cache:
  assumes rel: "release (heap s) (m_particles s) = Inr h"
      and kernel: "m_weight_function s = Some k"
      and inputs: "\<forall>p \<in> set particles. releasable h p"
  shows "\<exists>s'. setParticles Dim s particles = Inr s'
           \<and> m_particle_grid_weight_and_gradient s' =
               resize (m_particle_grid_weight_and_gradient s) (length particles)
                 (replicate (max_num Dim (supportRadius k)) default_pair)
           \<and> m_particle_grid_pair_num s' = resize (m_particle_grid_pair_num s) (length particles) 0"
proof -
  let ?s1 = "resized Dim k h (length particles) s"
  have loop: "setParticles Dim s particles = add_new_particle_data 0 particles ?s1"
    using rel kernel by (rule setParticles_loop)
  have "\<exists>s'. add_new_particle_data 0 particles ?s1 = Inr s'"
    using inputs by (intro add_new_particle_data_total) (simp_all add: resized_def length_resize)
  then obtain s' where s': "add_new_particle_data 0 particles ?s1 = Inr s'" ..
  from add_new_particle_data_frame [OF s'] have
    "m_particle_grid_weight_and_gradient s' = m_particle_grid_weight_and_gradient ?s1"
    "m_particle_grid_pair_num s' = m_particle_grid_pair_num ?s1"
    by simp_all
  with loop s' show ?thesis by (simp add: resized_def)
qed

text \<open>
  Claim C2 fails on a container whose existing slots were sized for another kernel or have
  valid entries. In \<open>rekernelled\<close> the kernel has support radius 2, so that a slot needs
  \<open>(2 * 2 + 1) ^ 2 = 25\<close> entries in two dimensions; after \<open>setParticles\<close> the slot of index 0
  still has the 9 entries it had before, and its counter of valid entries is still 4.
\<close>

theorem setParticles_keeps_old_cache_slot:
  "\<exists>s'. setParticles 2 rekernelled [Addr 1] = Inr s'
      \<and> m_weight_function s' = Some (Kernel 2)
      \<and> length (m_particle_grid_weight_and_gradient s' ! 0) = 9
      \<and> (2 * supportRadius (Kernel 2) + 1) ^ 2 = (25 :: nat)
      \<and> m_particle_grid_pair_num s' ! 0 = 4"
  by (simp add: setParticles_def rekernelled_def one_particle_def delete_ptr_def resize_def
      allocateSpaceForWeightAndGradient_def max_num_eq clone_def deref_def assign_def fresh_def)

section \<open>The velocity norm\<close>

text \<open>What \<open>maxParticleVelocityNorm\<close> returns when every slot holds a live particle and no
  squared norm exceeds \<open>std::numeric_limits<Scalar>::max()\<close>: 0 on the empty container, and
  otherwise the square root of the least squared velocity norm; for a single particle, the
  square root of its squared norm.\<close>

lemma maxParticleVelocityNorm_empty:
  "particleNum s = 0 \<Longrightarrow> maxParticleVelocityNorm scalar_max s = Inr 0"
  by (simp add: maxParticleVelocityNorm_def particleNum_def)

lemma min_vel_loop_live:
  assumes "list_all2 (\<lambda>p v. deref h p = Inr v) ps vs"
  shows "min_vel_loop h ps m = Inr (Min (insert m (set (map (\<lambda>v. normSquared (velocity v)) vs))))"
  using assms
proof (induction ps vs arbitrary: m rule: list_all2_induct)
  case Nil
  show ?case by simp
next
  case (Cons p ps v vs)
  let ?x = "normSquared (velocity v)"
  let ?S = "set (map (\<lambda>v. normSquared (velocity v)) vs)"
  have "min_vel_loop h (p # ps) m = min_vel_loop h ps (if ?x < m then ?x else m)"
    using Cons.hyps by (simp add: Let_def)
  also have "\<dots> = Inr (Min (insert (if ?x < m then ?x else m) ?S))"
    by (rule Cons.IH)
  also have "(if ?x < m then ?x else m) = min ?x m" by (simp add: min_def)
  also have "Min (insert (min ?x m) ?S) = Min (insert m (insert ?x ?S))"
  proof -
    have "Min (insert m (insert ?x ?S)) = min m (Min (insert ?x ?S))" by simp
    also have "\<dots> = min m (if ?S = {} then ?x else min ?x (Min ?S))" by simp
    also have "\<dots> = (if ?S = {} then min ?x m else min (min ?x m) (Min ?S))"
      by (simp add: min.commute min.assoc)
    also have "\<dots> = Min (insert (min ?x m) ?S)" by simp
    finally show ?thesis by simp
  qed
  finally show ?case by simp
qed

lemma maxParticleVelocityNorm_live:
  assumes live: "list_all2 (\<lambda>p v. deref (heap s) p = Inr v) (m_particles s) vs"
      and nonempty: "0 < particleNum s"
      and bounded: "\<forall>v \<in> set vs. normSquared (velocity v) \<le> scalar_max"
  shows "maxParticleVelocityNorm scalar_max s =
           Inr (sqrt (Min (set (map (\<lambda>v. normSquared (velocity v)) vs))))"
proof -
  let ?S = "set (map (\<lambda>v. normSquared (velocity v)) vs)"
  from live have "length vs = length (m_particles s)" by (simp add: list_all2_lengthD)
  with nonempty have ne: "?S \<noteq> {}" by (auto simp: particleNum_def)
  from ne have "\<exists>x. x \<in> ?S" by auto
  then obtain x where x: "x \<in> ?S" ..
  then have "Min ?S \<le> x" by simp
  also from x bounded have "x \<le> scalar_max" by auto
  finally have "Min ?S \<le> scalar_max" .
  moreover have "Min (insert scalar_max ?S) = min scalar_max (Min ?S)"
    using ne by (intro Min_insert) simp_all
  ultimately have "Min (insert scalar_max ?S) = Min ?S"
    by (simp only: min_absorb2)
  with min_vel_loop_live [OF live, of scalar_max] nonempty show ?thesis
    by (auto simp: maxParticleVelocityNorm_def particleNum_def)
qed

lemma maxParticleVelocityNorm_single:
  assumes "m_particles s = [p]" and "deref (heap s) p = Inr v"
      and "normSquared (velocity v) \<le> scalar_max"
  shows "maxParticleVelocityNorm scalar_max s = Inr (sqrt (normSquared (velocity v)))"
  using maxParticleVelocityNorm_live [of s "[v]" scalar_max] assms
  by (simp add: particleNum_def)

text \<open>
  Claim C8 fails on a non-empty container with a null slot, which \<open>setParticles\<close> leaves for
  a null input: \<open>maxParticleVelocityNorm\<close> reads the velocity through the null pointer and
  returns nothing.
\<close>

theorem maxParticleVelocityNorm_null_slot:
  "\<exists>s. setParticles 2 (new_base [] (Some (Kernel 1))) [NULL] = Inr s
      \<and> particleNum s = 1
      \<and> m_particles s = [NULL]
      \<and> maxParticleVelocityNorm scalar_max s = Inl Undefined_Behaviour"
  by (simp add: setParticles_def new_base_def resize_def allocateSpaceForWeightAndGradient_def
      particleNum_def maxParticleVelocityNorm_def deref_def)

section \<open>The read accessor\<close>

text \<open>What the two forms of \<open>particle\<close> do on an index that is not below the count, and on an
  index whose slot holds a live particle.\<close>

lemma particle_const_eq: "particle_const s i = particle s i"
  by (simp add: particle_def particle_const_def)

lemma particle_out_of_range:
  "particleNum s \<le> i \<Longrightarrow> particle s i = (cerr s @ [Error_Index_Out_Of_Range], Inl Exit_Failure)"
  by (simp add: particle_def particleNum_def)

lemma particle_live_slot:
  "i < particleNum s \<Longrightarrow> m_particles s ! i = Addr a \<Longrightarrow> map_of (heap s) a = Some v \<Longrightarrow>
     particle s i = (cerr s, Inr (Addr a))"
  by (simp add: particle_def particleNum_def deref_def)

text \<open>
  Claim C7 fails on an index below the count whose slot is null, as \<open>setParticles\<close> leaves it
  for a null input: both forms of \<open>particle\<close> apply the indirection to the null pointer, so
  that no reference to a particle is returned.
\<close>

theorem particle_null_slot:
  "\<exists>s. setParticles 2 (new_base [] (Some (Kernel 1))) [NULL] = Inr s
      \<and> particleNum s = 1
      \<and> m_particles s = [NULL]
      \<and> particle s 0 = (cerr s, Inl Undefined_Behaviour)
      \<and> particle_const s 0 = (cerr s, Inl Undefined_Behaviour)"
  by (simp add: setParticles_def new_base_def resize_def allocateSpaceForWeightAndGradient_def
      particleNum_def particle_def particle_const_def deref_def)

end
